theory Spec2Isabelle
  imports Complex_Main
begin

section \<open>Sensitivity grid normalisation and heat-map rendering\<close>

text \<open>
  The development embeds two pieces of the front end: the grid normalisation that the
  Model page performs inline before it mounts the heat-map (the block that builds
  \<open>uniqueDebtToEbitda\<close>, \<open>uniqueWacc\<close> and \<open>matrix\<close>), and the drawing effect of
  \<open>HeatmapChart\<close>.

  In the normalisation a number is a binary64 value, \<open>NaN\<close> or an infinity, and
  every product, difference and string conversion rounds as the language does. In the
  heat-map component the matrix values and the coordinates are exact rationals: the
  rounding of coordinates is not modelled. Everything else (insertion order of \<open>Set\<close>,
  \<open>indexOf\<close> returning \<open>-1\<close>, \<open>undefined\<close> from an out-of-range read, the \<open>|| 0\<close>
  fallbacks, the early return of the effect) is written out.
\<close>

subsection \<open>JavaScript primitives used by the page\<close>

text \<open>
  \<open>Array.from(new Set(xs))\<close>: a \<open>Set\<close> keeps the first occurrence of every value, in
  insertion order. It compares numbers with SameValueZero, under which \<open>NaN\<close> equals
  itself.
\<close>

fun set_add_all :: "'a list \<Rightarrow> 'a list \<Rightarrow> 'a list" where
  "set_add_all acc [] = acc"
| "set_add_all acc (x # xs) = set_add_all (if x \<in> set acc then acc else acc @ [x]) xs"

definition array_from_set :: "'a list \<Rightarrow> 'a list" where
  "array_from_set xs = set_add_all [] xs"

subsection \<open>Numbers\<close>

text \<open>
  A number is a finite value, given by its exact rational value, an infinity or \<open>NaN\<close>.
  Negative zero is identified with zero: \<open>Set\<close>, \<open>indexOf\<close>, the comparisons and
  the arithmetic used here do not tell them apart.
\<close>

datatype jsnum = Num rat | PInf | NInf | NaN

text \<open>Powers of two with an integer exponent.\<close>

definition pow2 :: "int \<Rightarrow> rat" where
  "pow2 e = (if 0 \<le> e then 2 ^ nat e else 1 / 2 ^ nat (- e))"

text \<open>Rounding to the nearest integer, a tie going to the even one.\<close>

definition round_half_even :: "rat \<Rightarrow> int" where
  "round_half_even m =
     (let f = \<lfloor>m\<rfloor>; r = m - of_int f
      in if r < 1 / 2 then f else if 1 / 2 < r then f + 1 else if even f then f else f + 1)"

text \<open>
  The binary exponent of a positive value, limited to the exponents of binary64:
  \<open>find_up\<close> looks for the first \<open>e \<ge> 0\<close> with \<open>v < 2^(e+1)\<close> and stops at 1024,
  \<open>find_down\<close> looks for the first \<open>e \<le> -1\<close> with \<open>2^e \<le> v\<close> and stops at -1022,
  the exponent of the subnormal values.
\<close>

fun find_up :: "nat \<Rightarrow> int \<Rightarrow> rat \<Rightarrow> int" where
  "find_up n e v = (if n = 0 then e else if v < pow2 (e + 1) then e else find_up (n - 1) (e + 1) v)"

fun find_down :: "nat \<Rightarrow> int \<Rightarrow> rat \<Rightarrow> int" where
  "find_down n e v = (if n = 0 then e else if pow2 e \<le> v then e else find_down (n - 1) (e - 1) v)"

declare find_up.simps [simp del] find_down.simps [simp del]

definition exponent64 :: "rat \<Rightarrow> int" where
  "exponent64 v = (if 1 \<le> v then find_up 1024 0 v else find_down 1021 (- 1) v)"

text \<open>
  Rounding a positive value to binary64, to nearest with ties to even: the value is
  rounded to a multiple of the spacing \<open>2^(e - 52)\<close> of its binade, and a result of
  \<open>2^1024\<close> or more is infinity.
\<close>

definition round_pos :: "rat \<Rightarrow> jsnum" where
  "round_pos v =
     (let e = exponent64 v; ulp = pow2 (e - 52);
          r = of_int (round_half_even (v / ulp)) * ulp
      in if 2 ^ 1024 \<le> r then PInf else Num r)"

fun js_neg :: "jsnum \<Rightarrow> jsnum" where
  "js_neg (Num q) = Num (- q)"
| "js_neg PInf = NInf"
| "js_neg NInf = PInf"
| "js_neg NaN = NaN"

text \<open>
  \<open>round64 q\<close> is the binary64 value nearest to \<open>q\<close>: the value of a decimal literal
  and of a decimal string read back as a number, and the result of an arithmetic
  operation whose exact result is \<open>q\<close>.
\<close>

definition round64 :: "rat \<Rightarrow> jsnum" where
  "round64 q = (if q = 0 then Num 0 else if 0 < q then round_pos q else js_neg (round_pos (- q)))"

text \<open>The product \<open>a * b\<close> and the difference \<open>a - b\<close>.\<close>

fun js_mul :: "jsnum \<Rightarrow> jsnum \<Rightarrow> jsnum" where
  "js_mul (Num a) (Num b) = round64 (a * b)"
| "js_mul NaN _ = NaN"
| "js_mul _ NaN = NaN"
| "js_mul (Num a) PInf = (if a = 0 then NaN else if 0 < a then PInf else NInf)"
| "js_mul (Num a) NInf = (if a = 0 then NaN else if 0 < a then NInf else PInf)"
| "js_mul PInf (Num b) = (if b = 0 then NaN else if 0 < b then PInf else NInf)"
| "js_mul NInf (Num b) = (if b = 0 then NaN else if 0 < b then NInf else PInf)"
| "js_mul PInf PInf = PInf"
| "js_mul PInf NInf = NInf"
| "js_mul NInf PInf = NInf"
| "js_mul NInf NInf = PInf"

fun js_sub :: "jsnum \<Rightarrow> jsnum \<Rightarrow> jsnum" where
  "js_sub (Num a) (Num b) = round64 (a - b)"
| "js_sub NaN _ = NaN"
| "js_sub _ NaN = NaN"
| "js_sub (Num a) PInf = NInf"
| "js_sub (Num a) NInf = PInf"
| "js_sub PInf (Num b) = PInf"
| "js_sub NInf (Num b) = NInf"
| "js_sub PInf PInf = NaN"
| "js_sub PInf NInf = PInf"
| "js_sub NInf PInf = NInf"
| "js_sub NInf NInf = NaN"

text \<open>
  The comparison \<open>a < b\<close>, strict equality \<open>a === b\<close> (false when either side is
  \<open>NaN\<close>), \<open>Number.isFinite\<close>, and membership in binary64 for a finite value.
\<close>

fun js_lt :: "jsnum \<Rightarrow> jsnum \<Rightarrow> bool" where
  "js_lt (Num a) (Num b) = (a < b)"
| "js_lt NaN _ = False"
| "js_lt _ NaN = False"
| "js_lt (Num a) PInf = True"
| "js_lt (Num a) NInf = False"
| "js_lt PInf _ = False"
| "js_lt NInf (Num b) = True"
| "js_lt NInf PInf = True"
| "js_lt NInf NInf = False"

definition strict_eq :: "jsnum \<Rightarrow> jsnum \<Rightarrow> bool" where
  "strict_eq a b = (a \<noteq> NaN \<and> b \<noteq> NaN \<and> a = b)"

fun js_isFinite :: "jsnum \<Rightarrow> bool" where
  "js_isFinite (Num q) = True"
| "js_isFinite _ = False"

fun is_double :: "jsnum \<Rightarrow> bool" where
  "is_double (Num q) = (round64 q = Num q)"
| "is_double _ = True"

text \<open>
  \<open>+(v.toFixed(1))\<close>: \<open>toFixed\<close> negates a negative argument, takes the integer \<open>n\<close>
  with \<open>n / 10\<close> nearest to the exact value (the larger one on a tie) and prints it
  with one decimal; from \<open>10^21\<close> on it prints the number itself, and it prints
  \<open>NaN\<close> and the infinities by name. The unary plus reads the string back as a number.
\<close>

fun toFixed1_num :: "jsnum \<Rightarrow> jsnum" where
  "toFixed1_num (Num v) =
     (if 10 ^ 21 \<le> \<bar>v\<bar> then Num v
      else if v < 0 then round64 (- (of_int \<lfloor>(- v) * 10 + 1 / 2\<rfloor> / 10))
      else round64 (of_int \<lfloor>v * 10 + 1 / 2\<rfloor> / 10))"
| "toFixed1_num PInf = PInf"
| "toFixed1_num NInf = NInf"
| "toFixed1_num NaN = NaN"


text \<open>
  \<open>xs.sort(cmp)\<close>: the comparator returns a number, of which the sort uses the sign,
  taking \<open>NaN\<close> as zero; not positive puts the first argument first. With a consistent
  comparator the result is the stable sorted permutation, computed here by insertion.
  (With \<open>NaN\<close> among the values the comparator is not consistent and the language
  leaves the order to the implementation.)
\<close>

fun sortCompare :: "jsnum \<Rightarrow> int" where
  "sortCompare (Num v) = (if v < 0 then - 1 else if v = 0 then 0 else 1)"
| "sortCompare PInf = 1"
| "sortCompare NInf = - 1"
| "sortCompare NaN = 0"

fun insert_by :: "('a \<Rightarrow> 'a \<Rightarrow> jsnum) \<Rightarrow> 'a \<Rightarrow> 'a list \<Rightarrow> 'a list" where
  "insert_by cmp x [] = [x]"
| "insert_by cmp x (y # ys) =
     (if sortCompare (cmp x y) \<le> 0 then x # y # ys else y # insert_by cmp x ys)"

fun sort_by :: "('a \<Rightarrow> 'a \<Rightarrow> jsnum) \<Rightarrow> 'a list \<Rightarrow> 'a list" where
  "sort_by cmp [] = []"
| "sort_by cmp (x # xs) = insert_by cmp x (sort_by cmp xs)"

text \<open>
  \<open>xs.indexOf(v)\<close> on numbers: the first index whose element is strictly equal to \<open>v\<close>,
  or \<open>-1\<close>; \<open>NaN\<close> is never found.
\<close>

fun indexOfNum_from :: "int \<Rightarrow> jsnum list \<Rightarrow> jsnum \<Rightarrow> int" where
  "indexOfNum_from k [] v = - 1"
| "indexOfNum_from k (x # xs) v = (if strict_eq x v then k else indexOfNum_from (k + 1) xs v)"

definition indexOfNum :: "jsnum list \<Rightarrow> jsnum \<Rightarrow> int" where
  "indexOfNum xs v = indexOfNum_from 0 xs v"

subsection \<open>Grid normalisation (Model page, heat-map tab)\<close>

text \<open>A row of \<open>capital_structure_grid\<close>.\<close>

record sample =
  debt_to_ebitda :: jsnum
  wacc :: jsnum
  equity_irr :: jsnum

text \<open>The y key of a grid row: \<open>+(row.wacc * 100).toFixed(1)\<close>.\<close>

definition waccKey :: "sample \<Rightarrow> jsnum" where
  "waccKey d = toFixed1_num (js_mul (wacc d) (Num 100))"

definition uniqueDebtToEbitda :: "sample list \<Rightarrow> jsnum list" where
  "uniqueDebtToEbitda gridData =
     sort_by (\<lambda>a b. js_sub a b) (array_from_set (map debt_to_ebitda gridData))"

definition uniqueWacc :: "sample list \<Rightarrow> jsnum list" where
  "uniqueWacc gridData =
     sort_by (\<lambda>a b. js_sub b a) (array_from_set (map waccKey gridData))"

text \<open>One zero-filled row per y key.\<close>

definition zeroMatrix :: "jsnum list \<Rightarrow> jsnum list \<Rightarrow> jsnum list list" where
  "zeroMatrix xKeys yKeys = map (\<lambda>_. replicate (length xKeys) (Num 0)) yKeys"

text \<open>
  The body of \<open>gridData.forEach\<close>: look both keys up and write the cell when both are
  found; otherwise the row is skipped.
\<close>

definition fillCell ::
  "jsnum list \<Rightarrow> jsnum list \<Rightarrow> sample \<Rightarrow> jsnum list list \<Rightarrow> jsnum list list" where
  "fillCell xKeys yKeys row m =
     (let xIndex = indexOfNum xKeys (debt_to_ebitda row);
          yIndex = indexOfNum yKeys (waccKey row)
      in if xIndex \<noteq> - 1 \<and> yIndex \<noteq> - 1
         then m[nat yIndex := (m ! nat yIndex)[nat xIndex := js_mul (equity_irr row) (Num 100)]]
         else m)"

definition fillMatrix ::
  "jsnum list \<Rightarrow> jsnum list \<Rightarrow> sample list \<Rightarrow> jsnum list list \<Rightarrow> jsnum list list" where
  "fillMatrix xKeys yKeys gridData m = fold (fillCell xKeys yKeys) gridData m"

definition matrix :: "sample list \<Rightarrow> jsnum list list" where
  "matrix gridData =
     fillMatrix (uniqueDebtToEbitda gridData) (uniqueWacc gridData) gridData
       (zeroMatrix (uniqueDebtToEbitda gridData) (uniqueWacc gridData))"

definition normalizeGrid :: "sample list \<Rightarrow> jsnum list \<times> jsnum list \<times> jsnum list list" where
  "normalizeGrid gridData = (uniqueDebtToEbitda gridData, uniqueWacc gridData, matrix gridData)"


subsection \<open>Primitives used by the heat-map component\<close>

text \<open>\<open>xs[i]\<close>: \<open>undefined\<close> (here \<open>None\<close>) when \<open>i\<close> is out of range.\<close>

definition nth_opt :: "'a list \<Rightarrow> nat \<Rightarrow> 'a option" where
  "nth_opt xs i = (if i < length xs then Some (xs ! i) else None)"

text \<open>\<open>v || 0\<close> on a number or \<open>undefined\<close>: \<open>undefined\<close> and \<open>0\<close> are falsy.\<close>

definition or0 :: "rat option \<Rightarrow> rat" where
  "or0 v = (case v of None \<Rightarrow> 0 | Some x \<Rightarrow> (if x = 0 then 0 else x))"

text \<open>A label inside a template literal: \<open>undefined\<close> prints as the word.\<close>

definition js_string :: "string option \<Rightarrow> string" where
  "js_string v = (case v of None \<Rightarrow> ''undefined'' | Some l \<Rightarrow> l)"

text \<open>
  The functions below belong to the d3 libraries (\<open>d3-array\<close>, \<open>d3-scale\<close>), which
  the component imports; they are not part of the repository's sources and are written
  here after the libraries' published implementations.

  \<open>min(values)\<close> and \<open>max(values)\<close> scan the values and return \<open>undefined\<close> for an
  empty array.
\<close>

definition d3_min :: "rat list \<Rightarrow> rat option" where
  "d3_min values =
     fold (\<lambda>v acc. case acc of None \<Rightarrow> Some v
                     | Some lo \<Rightarrow> (if lo > v then Some v else Some lo)) values None"

definition d3_max :: "rat list \<Rightarrow> rat option" where
  "d3_max values =
     fold (\<lambda>v acc. case acc of None \<Rightarrow> Some v
                     | Some hi \<Rightarrow> (if hi < v then Some v else Some hi)) values None"

text \<open>
  A fill is either a literal colour or the \<open>interpolateRdYlBu\<close> ramp applied to a
  parameter; the ramp itself is kept symbolic.
\<close>

datatype color = Hex string | RdYlBu rat

text \<open>
  \<open>scaleSequential().domain([x0, x1]).interpolator(interpolateRdYlBu)\<close>: the value is
  normalised against the domain (no clamping); a degenerate domain maps everything to
  the middle of the ramp.
\<close>

definition scaleSequential :: "rat \<times> rat \<Rightarrow> rat \<Rightarrow> color" where
  "scaleSequential domain x =
     (let t0 = fst domain; t1 = snd domain;
          k10 = (if t0 = t1 then 0 else 1 / (t1 - t0))
      in RdYlBu (if k10 = 0 then 1 / 2 else (x - t0) * k10))"

text \<open>
  \<open>scaleBand().domain(labels).range([r0, r1]).padding(pad)\<close>. The domain keeps the
  first occurrence of every label. \<open>padding\<close> sets the outer padding to \<open>pad\<close> and the
  inner padding to \<open>min 1 pad\<close>; the alignment is \<open>1/2\<close>. When the range is given
  backwards (\<open>r1 < r0\<close>) the slots are laid out from \<open>r1\<close> and handed to the domain in
  reverse, so the first label receives the slot nearest to \<open>r0\<close>.
\<close>

record band =
  band_domain :: "string list"
  band_range :: "rat list"
  bandwidth :: rat

definition scaleBand :: "string list \<Rightarrow> rat \<Rightarrow> rat \<Rightarrow> rat \<Rightarrow> band" where
  "scaleBand labels r0 r1 pad =
     (let domain = array_from_set labels;
          n = length domain;
          paddingOuter = pad;
          paddingInner = min 1 pad;
          reverse = r1 < r0;
          start = (if reverse then r1 else r0);
          stop = (if reverse then r0 else r1);
          step = (stop - start) / max 1 (of_nat n - paddingInner + paddingOuter * 2);
          start' = start + (stop - start - step * (of_nat n - paddingInner)) * (1 / 2);
          values = map (\<lambda>i. start' + step * of_nat i) [0..<n]
      in \<lparr>band_domain = domain,
          band_range = (if reverse then rev values else values),
          bandwidth = step * (1 - paddingInner)\<rparr>)"

text \<open>
  The position of a label in a list of labels, or \<open>-1\<close>: the index an ordinal scale
  keeps of its domain.
\<close>

fun indexOf_from :: "int \<Rightarrow> 'a list \<Rightarrow> 'a \<Rightarrow> int" where
  "indexOf_from k [] v = - 1"
| "indexOf_from k (x # xs) v = (if x = v then k else indexOf_from (k + 1) xs v)"

definition indexOf :: "'a list \<Rightarrow> 'a \<Rightarrow> int" where
  "indexOf xs v = indexOf_from 0 xs v"

text \<open>
  Applying the scale: the slot of the label's index in the domain; \<open>undefined\<close> for a
  label that is not in the domain (a band scale has no implicit domain) and for
  \<open>undefined\<close> itself.
\<close>

definition band_apply :: "band \<Rightarrow> string option \<Rightarrow> rat option" where
  "band_apply b d =
     (case d of None \<Rightarrow> None
      | Some l \<Rightarrow> (let i = indexOf (band_domain b) l
                   in if i = - 1 then None else nth_opt (band_range b) (nat i)))"

subsection \<open>The heat-map component\<close>

record HeatmapProps =
  data :: "rat list list"
  xLabels :: "string list"
  yLabels :: "string list"
  title :: "string option"
  width :: "rat option"
  height :: "rat option"

text \<open>The default values of the optional sizes.\<close>

definition widthOf :: "HeatmapProps \<Rightarrow> rat" where
  "widthOf p = (case width p of None \<Rightarrow> 600 | Some w \<Rightarrow> w)"

definition heightOf :: "HeatmapProps \<Rightarrow> rat" where
  "heightOf p = (case height p of None \<Rightarrow> 400 | Some h \<Rightarrow> h)"

text \<open>The margins are top 40, right 40, bottom 60, left 60.\<close>

definition innerWidth :: "HeatmapProps \<Rightarrow> rat" where
  "innerWidth p = widthOf p - 60 - 40"

definition innerHeight :: "HeatmapProps \<Rightarrow> rat" where
  "innerHeight p = heightOf p - 40 - 60"

definition colorDomain :: "rat list list \<Rightarrow> rat \<times> rat" where
  "colorDomain d = (or0 (d3_min (concat d)), or0 (d3_max (concat d)))"

definition colorScale :: "HeatmapProps \<Rightarrow> rat \<Rightarrow> color" where
  "colorScale p = scaleSequential (colorDomain (data p))"

definition xScale :: "HeatmapProps \<Rightarrow> band" where
  "xScale p = scaleBand (xLabels p) 0 (innerWidth p) (5 / 100)"

definition yScale :: "HeatmapProps \<Rightarrow> band" where
  "yScale p = scaleBand (yLabels p) (innerHeight p) 0 (5 / 100)"

text \<open>The coordinates a cell of row \<open>i\<close> and column \<open>j\<close> is drawn at.\<close>

definition xCoord :: "HeatmapProps \<Rightarrow> nat \<Rightarrow> rat" where
  "xCoord p j = or0 (band_apply (xScale p) (nth_opt (xLabels p) j))"

definition yCoord :: "HeatmapProps \<Rightarrow> nat \<Rightarrow> rat" where
  "yCoord p i = or0 (band_apply (yScale p) (nth_opt (yLabels p) i))"

text \<open>
  The drawing surface. Text is kept as the pieces of its template literal, where
  \<open>Fixed1 v\<close> stands for \<open>v.toFixed(1)\<close>.
\<close>

datatype piece = Str string | Fixed1 rat

datatype element =
    Rect (rect_x: rat) (rect_y: rat) (rect_width: rat) (rect_height: rat)
      (rect_fill: color) (rect_title: "piece list")
  | CellText (text_x: rat) (text_y: rat) (text_fill: string) (text_body: "piece list")
  | AxisBottom rat band
  | AxisLeft band
  | Title rat rat string
  | CaptionX rat rat string
  | CaptionY rat rat string
  | Group rat rat "element list"

record svg =
  svg_width :: "rat option"
  svg_height :: "rat option"
  children :: "element list"

definition cellRect :: "HeatmapProps \<Rightarrow> nat \<Rightarrow> nat \<Rightarrow> rat \<Rightarrow> element" where
  "cellRect p i j v =
     Rect (xCoord p j) (yCoord p i) (bandwidth (xScale p)) (bandwidth (yScale p))
       (colorScale p v)
       [Str (js_string (nth_opt (yLabels p) i)), Str '', '',
        Str (js_string (nth_opt (xLabels p) j)), Str '': '', Fixed1 v, Str ''%'']"

definition cellText :: "HeatmapProps \<Rightarrow> nat \<Rightarrow> nat \<Rightarrow> rat \<Rightarrow> element" where
  "cellText p i j v =
     CellText (xCoord p j + bandwidth (xScale p) / 2) (yCoord p i + bandwidth (yScale p) / 2)
       (if v > 0 then ''#000'' else ''#fff'')
       [Fixed1 v, Str ''%'']"

text \<open>
  Reading \<open>data[i].length\<close> and \<open>data[i][j].toFixed(1)\<close> throws a \<open>TypeError\<close> when
  the row or the cell is \<open>undefined\<close>.
\<close>

datatype js_error = TypeError

definition rowLength :: "rat list list \<Rightarrow> nat \<Rightarrow> js_error + nat" where
  "rowLength d i = (case nth_opt d i of None \<Rightarrow> Inl TypeError | Some row \<Rightarrow> Inr (length row))"

definition readCell :: "rat list list \<Rightarrow> nat \<Rightarrow> nat \<Rightarrow> js_error + rat" where
  "readCell d i j =
     (case nth_opt d i of None \<Rightarrow> Inl TypeError
      | Some row \<Rightarrow> (case nth_opt row j of None \<Rightarrow> Inl TypeError | Some v \<Rightarrow> Inr v))"

text \<open>A counting loop whose body appends elements and may throw.\<close>

fun forEach :: "nat list \<Rightarrow> (nat \<Rightarrow> js_error + element list) \<Rightarrow> js_error + element list" where
  "forEach [] body = Inr []"
| "forEach (k # ks) body =
     (case body k of Inl e \<Rightarrow> Inl e
      | Inr drawn \<Rightarrow> (case forEach ks body of Inl e \<Rightarrow> Inl e
                      | Inr later \<Rightarrow> Inr (drawn @ later)))"

text \<open>
  The two nested loops over the cells; \<open>mk\<close> is the element appended for a cell.
\<close>

definition drawCells ::
  "HeatmapProps \<Rightarrow> (nat \<Rightarrow> nat \<Rightarrow> rat \<Rightarrow> element) \<Rightarrow> js_error + element list" where
  "drawCells p mk =
     forEach [0..<length (data p)] (\<lambda>i.
       case rowLength (data p) i of Inl e \<Rightarrow> Inl e
       | Inr n \<Rightarrow> forEach [0..<n] (\<lambda>j.
           case readCell (data p) i j of Inl e \<Rightarrow> Inl e
           | Inr v \<Rightarrow> Inr [mk i j v]))"

text \<open>An empty title is falsy and is not drawn.\<close>

definition titleElement :: "HeatmapProps \<Rightarrow> element list" where
  "titleElement p =
     (case title p of None \<Rightarrow> []
      | Some t \<Rightarrow> (if t = [] then [] else [Title (widthOf p / 2) (40 / 2) t]))"

text \<open>
  The effect of \<open>HeatmapChart\<close>. The target is \<open>svgRef.current\<close>, \<open>None\<close> while the
  element is not mounted. The effect returns at once without a target or without rows;
  otherwise it removes every child of the target, sets its size, and appends the group
  of cells, cell texts and axes, the title and the two captions.
\<close>

definition HeatmapChart :: "HeatmapProps \<Rightarrow> svg option \<Rightarrow> js_error + svg option" where
  "HeatmapChart p current =
     (case current of None \<Rightarrow> Inr None
      | Some target \<Rightarrow>
          if data p = [] then Inr (Some target)
          else
            (let cleared = target\<lparr>children := []\<rparr>;
                 sized = cleared\<lparr>svg_width := Some (widthOf p), svg_height := Some (heightOf p)\<rparr>
             in case drawCells p (cellRect p) of Inl e \<Rightarrow> Inl e
                | Inr rects \<Rightarrow>
                   (case drawCells p (cellText p) of Inl e \<Rightarrow> Inl e
                    | Inr texts \<Rightarrow>
                        Inr (Some (sized\<lparr>children :=
                          children sized
                          @ [Group 60 40
                               (rects @ texts
                                @ [AxisBottom (innerHeight p) (xScale p), AxisLeft (yScale p)])]
                          @ titleElement p
                          @ [CaptionX (widthOf p / 2) (heightOf p - 10) ''Terminal Growth Rate (%)'',
                             CaptionY (- heightOf p / 2) 15 ''WACC (%)'']\<rparr>)))))"

text \<open>
  The elements the nested loops append when no read throws: for every row in order,
  for every column in order, the element of that cell.
\<close>

definition cellsOf :: "HeatmapProps \<Rightarrow> (nat \<Rightarrow> nat \<Rightarrow> rat \<Rightarrow> element) \<Rightarrow> element list" where
  "cellsOf p mk =
     concat (map (\<lambda>i. concat (map (\<lambda>j. [mk i j (data p ! i ! j)]) [0..<length (data p ! i)]))
       [0..<length (data p)])"



subsection \<open>Notions used in the proofs\<close>

text \<open>
  Every finite binary64 value is an integer multiple of \<open>2^(-1074)\<close>. A number is
  comparable when it is not \<open>NaN\<close> and, if finite, lies on that grid.
\<close>

definition on_grid :: "rat \<Rightarrow> bool" where
  "on_grid q = (\<exists>k::int. q = of_int k * pow2 (- 1074))"

fun comparable :: "jsnum \<Rightarrow> bool" where
  "comparable (Num q) = on_grid q"
| "comparable NaN = False"
| "comparable PInf = True"
| "comparable NInf = True"


subsection \<open>Facts about rounding to binary64\<close>

lemma pow2_powi: "pow2 e = 2 powi e"
  by (simp add: pow2_def power_int_def field_simps)

lemma pow2_pos: "0 < pow2 e"
  by (simp add: pow2_powi)

lemma pow2_add: "pow2 (a + b) = pow2 a * pow2 b"
  by (simp add: pow2_powi power_int_add)

lemma pow2_mono: "a \<le> b \<Longrightarrow> pow2 a \<le> pow2 b"
  by (simp add: pow2_powi power_int_increasing)

lemma pow2_nonneg_int: "0 \<le> e \<Longrightarrow> pow2 e = of_int (2 ^ nat e)"
  by (simp add: pow2_def)

lemma find_up_ge: "e \<le> find_up n e v"
proof (induction n e v rule: find_up.induct)
  case (1 n e v)
  show ?case
  proof (cases "n = 0 \<or> v < pow2 (e + 1)")
    case True
    then show ?thesis by (auto simp: find_up.simps [of n e v])
  next
    case False
    with 1 have "e + 1 \<le> find_up (n - 1) (e + 1) v" by simp
    with False show ?thesis by (simp add: find_up.simps [of n e v])
  qed
qed

lemma find_up_low: "find_up n e v = e \<or> pow2 (find_up n e v) \<le> v"
proof (induction n e v rule: find_up.induct)
  case (1 n e v)
  show ?case
  proof (cases "n = 0 \<or> v < pow2 (e + 1)")
    case True
    then show ?thesis by (auto simp: find_up.simps [of n e v])
  next
    case False
    with 1 have "find_up (n - 1) (e + 1) v = e + 1 \<or> pow2 (find_up (n - 1) (e + 1) v) \<le> v"
      by simp
    with False show ?thesis by (auto simp: find_up.simps [of n e v])
  qed
qed

lemma find_down_ge: "e - int n \<le> find_down n e v"
proof (induction n e v rule: find_down.induct)
  case (1 n e v)
  show ?case
  proof (cases "n = 0 \<or> pow2 e \<le> v")
    case True
    then show ?thesis by (auto simp: find_down.simps [of n e v])
  next
    case False
    with 1 have "e - 1 - int (n - 1) \<le> find_down (n - 1) (e - 1) v" by simp
    with False show ?thesis by (simp add: find_down.simps [of n e v] of_nat_diff)
  qed
qed

lemma find_down_low: "find_down n e v = e - int n \<or> pow2 (find_down n e v) \<le> v"
proof (induction n e v rule: find_down.induct)
  case (1 n e v)
  show ?case
  proof (cases "n = 0 \<or> pow2 e \<le> v")
    case True
    then show ?thesis by (auto simp: find_down.simps [of n e v])
  next
    case False
    with 1 have "find_down (n - 1) (e - 1) v = e - 1 - int (n - 1)
        \<or> pow2 (find_down (n - 1) (e - 1) v) \<le> v" by simp
    with False show ?thesis by (auto simp: find_down.simps [of n e v] of_nat_diff)
  qed
qed

lemma exponent64_ge: "- 1022 \<le> exponent64 v"
proof (cases "1 \<le> v")
  case True
  with find_up_ge [of 0 1024 v] show ?thesis by (simp add: exponent64_def)
next
  case False
  with find_down_ge [of "- 1" 1021 v] show ?thesis by (simp add: exponent64_def)
qed

lemma exponent64_low: "exponent64 v = - 1022 \<or> pow2 (exponent64 v) \<le> v"
proof (cases "1 \<le> v")
  case True
  with find_up_low [of 1024 0 v] show ?thesis by (auto simp: exponent64_def pow2_def)
next
  case False
  with find_down_low [of 1021 "- 1" v] show ?thesis by (auto simp: exponent64_def)
qed

lemma round_half_even_nonneg: "0 \<le> m \<Longrightarrow> 0 \<le> round_half_even m"
  by (auto simp: round_half_even_def Let_def)

lemma round_half_even_pos: "1 \<le> m \<Longrightarrow> 1 \<le> round_half_even m"
proof -
  assume "1 \<le> m"
  then have "1 \<le> \<lfloor>m\<rfloor>" by simp
  then show ?thesis by (auto simp: round_half_even_def Let_def)
qed

lemma ulp_on_grid: "on_grid (of_int n * pow2 (exponent64 v - 52))"
proof -
  let ?e = "exponent64 v"
  have "0 \<le> ?e + 1022" using exponent64_ge [of v] by simp
  then have "pow2 (?e + 1022) = of_int (2 ^ nat (?e + 1022))" by (rule pow2_nonneg_int)
  moreover have "pow2 (?e - 52) = pow2 (?e + 1022) * pow2 (- 1074)"
    by (simp add: pow2_add [symmetric])
  ultimately have "of_int n * pow2 (?e - 52) = of_int (n * 2 ^ nat (?e + 1022)) * pow2 (- 1074)"
    by simp
  then show ?thesis unfolding on_grid_def by blast
qed

lemma round_pos_cases:
  assumes "0 < v"
  shows "round_pos v = PInf \<or> (\<exists>r. round_pos v = Num r \<and> 0 \<le> r \<and> on_grid r)"
proof -
  let ?ulp = "pow2 (exponent64 v - 52)"
  let ?n = "round_half_even (v / ?ulp)"
  have "0 \<le> v / ?ulp" using assms pow2_pos [of "exponent64 v - 52"] by simp
  then have "0 \<le> ?n" by (rule round_half_even_nonneg)
  then have "0 \<le> of_int ?n * ?ulp" using pow2_pos [of "exponent64 v - 52"] by simp
  moreover have "on_grid (of_int ?n * ?ulp)" by (rule ulp_on_grid)
  ultimately show ?thesis by (auto simp: round_pos_def Let_def)
qed

lemma round_pos_positive:
  assumes "pow2 (- 1074) \<le> v"
  shows "round_pos v = PInf \<or> (\<exists>r. round_pos v = Num r \<and> 0 < r \<and> on_grid r)"
proof -
  let ?e = "exponent64 v"
  let ?ulp = "pow2 (?e - 52)"
  let ?n = "round_half_even (v / ?ulp)"
  have "?ulp \<le> v"
  proof (cases "?e = - 1022")
    case True
    with assms show ?thesis by simp
  next
    case False
    with exponent64_low [of v] have "pow2 ?e \<le> v" by simp
    moreover have "?ulp \<le> pow2 ?e" by (rule pow2_mono) simp
    ultimately show ?thesis by simp
  qed
  then have "1 \<le> v / ?ulp" using pow2_pos [of "?e - 52"] by (simp add: le_divide_eq)
  then have "1 \<le> ?n" by (rule round_half_even_pos)
  then have "0 < of_int ?n * ?ulp" using pow2_pos [of "?e - 52"] by simp
  moreover have "on_grid (of_int ?n * ?ulp)" by (rule ulp_on_grid)
  ultimately show ?thesis by (auto simp: round_pos_def Let_def)
qed

lemma on_grid_pos_ge: assumes "on_grid q" and "0 < q" shows "pow2 (- 1074) \<le> q"
proof -
  from assms(1) obtain k :: int where k: "q = of_int k * pow2 (- 1074)"
    unfolding on_grid_def by blast
  with assms(2) pow2_pos [of "- 1074"] have "0 < (of_int k :: rat)"
    by (simp add: zero_less_mult_iff)
  then have "1 \<le> k" by simp
  then have "(1::rat) \<le> of_int k" by linarith
  then have "1 * pow2 (- 1074) \<le> of_int k * pow2 (- 1074)"
    using pow2_pos [of "- 1074"] by (simp only: mult_le_cancel_right_pos)
  with k show ?thesis by simp
qed

lemma on_grid_diff: "on_grid a \<Longrightarrow> on_grid b \<Longrightarrow> on_grid (a - b)"
proof -
  assume "on_grid a" and "on_grid b"
  then obtain k l :: int where "a = of_int k * pow2 (- 1074)" and "b = of_int l * pow2 (- 1074)"
    unfolding on_grid_def by blast
  then have "a - b = of_int (k - l) * pow2 (- 1074)" by (simp add: algebra_simps)
  then show ?thesis unfolding on_grid_def by blast
qed

lemma on_grid_neg: "on_grid a \<Longrightarrow> on_grid (- a)"
  using on_grid_diff [of 0 a] by (simp add: on_grid_def)

lemma round64_not_NaN: "round64 q \<noteq> NaN"
proof -
  have "round_pos v \<noteq> NaN" for v by (simp add: round_pos_def Let_def)
  then have "js_neg (round_pos v) \<noteq> NaN" for v by (cases "round_pos v") simp_all
  with \<open>\<And>v. round_pos v \<noteq> NaN\<close> show ?thesis by (simp add: round64_def)
qed

lemma round64_on_grid: "round64 q = Num r \<Longrightarrow> on_grid r"
proof -
  assume a: "round64 q = Num r"
  consider "q = 0" | "0 < q" | "q < 0" by linarith
  then show ?thesis
  proof cases
    case 1
    with a have "r = 0" by (simp add: round64_def)
    then show ?thesis by (simp add: on_grid_def)
  next
    case 2
    with a round_pos_cases [of q] show ?thesis by (auto simp: round64_def)
  next
    case 3
    then have "0 < - q" by simp
    from round_pos_cases [OF this] a 3 have "on_grid (- r)"
      by (auto simp: round64_def)
    then show ?thesis using on_grid_neg [of "- r"] by simp
  qed
qed

lemma round64_sign:
  assumes "on_grid q"
  shows "sortCompare (round64 q) = (if q < 0 then - 1 else if q = 0 then 0 else 1)"
proof -
  consider "q = 0" | "0 < q" | "q < 0" by linarith
  then show ?thesis
  proof cases
    case 1
    then show ?thesis by (simp add: round64_def)
  next
    case 2
    from on_grid_pos_ge [OF assms 2] have "pow2 (- 1074) \<le> q" .
    from round_pos_positive [OF this] 2 show ?thesis by (auto simp: round64_def)
  next
    case 3
    then have p: "0 < - q" by simp
    from on_grid_pos_ge [OF on_grid_neg [OF assms] p] have "pow2 (- 1074) \<le> - q" .
    from round_pos_positive [OF this] 3 show ?thesis by (auto simp: round64_def)
  qed
qed

subsection \<open>Facts about the primitives\<close>

lemma floor_rat_numeral_div:
  "\<lfloor>numeral a / numeral b :: rat\<rfloor> = numeral a div numeral b"
  using floor_divide_of_int_eq [of "numeral a" "numeral b", where ?'a = rat] by simp

lemmas js_eval = round64_def round_pos_def exponent64_def find_up.simps find_down.simps
  pow2_def round_half_even_def Let_def floor_rat_numeral_div

lemma set_set_add_all: "set (set_add_all acc xs) = set acc \<union> set xs"
  by (induction xs arbitrary: acc) auto

lemma distinct_set_add_all: "distinct acc \<Longrightarrow> distinct (set_add_all acc xs)"
  by (induction xs arbitrary: acc) auto

lemma set_array_from_set: "set (array_from_set xs) = set xs"
  by (simp add: array_from_set_def set_set_add_all)

lemma distinct_array_from_set: "distinct (array_from_set xs)"
  by (simp add: array_from_set_def distinct_set_add_all)

lemma set_insert_by: "set (insert_by cmp x ys) = insert x (set ys)"
  by (induction ys) auto

lemma distinct_insert_by: "distinct (insert_by cmp x ys) \<longleftrightarrow> x \<notin> set ys \<and> distinct ys"
  by (induction ys) (auto simp: set_insert_by)

lemma set_sort_by: "set (sort_by cmp xs) = set xs"
  by (induction xs) (auto simp: set_insert_by)

lemma distinct_sort_by: "distinct (sort_by cmp xs) \<longleftrightarrow> distinct xs"
  by (induction xs) (auto simp: distinct_insert_by set_sort_by)

text \<open>
  Insertion keeps a list ordered when, on the values at hand, the comparator decides a
  relation that orders any two of them one way or the other and is transitive.
\<close>

lemma sorted_insert_by:
  assumes dec: "\<And>a b. a \<in> W \<Longrightarrow> b \<in> W \<Longrightarrow> (sortCompare (cmp a b) \<le> 0) = R a b"
    and total: "\<And>a b. a \<in> W \<Longrightarrow> b \<in> W \<Longrightarrow> R a b \<or> R b a"
    and trans: "\<And>a b c. a \<in> W \<Longrightarrow> b \<in> W \<Longrightarrow> c \<in> W \<Longrightarrow> R a b \<Longrightarrow> R b c \<Longrightarrow> R a c"
    and "x \<in> W" and "set ys \<subseteq> W" and "sorted_wrt R ys"
  shows "sorted_wrt R (insert_by cmp x ys)"
  using assms(5,6)
proof (induction ys)
  case Nil
  then show ?case by simp
next
  case (Cons y ys)
  from Cons.prems have y: "y \<in> W" and ys: "set ys \<subseteq> W" by auto
  show ?case
  proof (cases "sortCompare (cmp x y) \<le> 0")
    case True
    then have xy: "R x y" using dec [OF \<open>x \<in> W\<close> y] by simp
    have "R x z" if "z \<in> set ys" for z
    proof -
      from that Cons.prems have "R y z" and "z \<in> W" by auto
      with xy show ?thesis using trans [OF \<open>x \<in> W\<close> y] by blast
    qed
    with True xy Cons.prems show ?thesis by auto
  next
    case False
    then have "\<not> R x y" using dec [OF \<open>x \<in> W\<close> y] by simp
    then have "R y x" using total [OF \<open>x \<in> W\<close> y] by blast
    moreover have "sorted_wrt R (insert_by cmp x ys)"
      using Cons.prems ys by (intro Cons.IH) auto
    ultimately show ?thesis using False Cons.prems by (auto simp: set_insert_by)
  qed
qed

lemma sorted_sort_by:
  assumes "\<And>a b. a \<in> W \<Longrightarrow> b \<in> W \<Longrightarrow> (sortCompare (cmp a b) \<le> 0) = R a b"
    and "\<And>a b. a \<in> W \<Longrightarrow> b \<in> W \<Longrightarrow> R a b \<or> R b a"
    and "\<And>a b c. a \<in> W \<Longrightarrow> b \<in> W \<Longrightarrow> c \<in> W \<Longrightarrow> R a b \<Longrightarrow> R b c \<Longrightarrow> R a c"
    and "set xs \<subseteq> W"
  shows "sorted_wrt R (sort_by cmp xs)"
  using assms(4)
proof (induction xs)
  case Nil
  then show ?case by simp
next
  case (Cons x xs)
  then have srt: "sorted_wrt R (sort_by cmp xs)" and x: "x \<in> W"
    and sub: "set (sort_by cmp xs) \<subseteq> W"
    by (auto simp: set_sort_by)
  have "sorted_wrt R (insert_by cmp x (sort_by cmp xs))"
  proof (rule sorted_insert_by [where W = W])
    fix a b assume "a \<in> W" and "b \<in> W"
    then show "(sortCompare (cmp a b) \<le> 0) = R a b" by (rule assms(1))
  next
    fix a b assume "a \<in> W" and "b \<in> W"
    then show "R a b \<or> R b a" by (rule assms(2))
  next
    fix a b c assume "a \<in> W" and "b \<in> W" and "c \<in> W" and "R a b" and "R b c"
    then show "R a c" by (rule assms(3))
  qed (fact x sub srt)+
  then show ?case by (simp only: sort_by.simps)
qed

lemma strict_of_sorted_distinct:
  assumes "sorted_wrt R xs" and "distinct xs"
    and "\<And>a b. R a b \<Longrightarrow> a \<noteq> b \<Longrightarrow> S a b"
  shows "sorted_wrt S xs"
  using assms(1,2)
proof (induction xs)
  case Nil
  then show ?case by simp
next
  case (Cons x xs)
  have "S x y" if "y \<in> set xs" for y
  proof -
    from that Cons.prems have "R x y" and "x \<noteq> y" by auto
    then show ?thesis by (rule assms(3))
  qed
  with Cons show ?case by auto
qed

subsection \<open>Facts about the number comparisons\<close>

lemma comparable_round64: "comparable (round64 q)"
  using round64_not_NaN [of q] round64_on_grid [of q] by (cases "round64 q") auto

lemma comparable_is_double: "is_double x \<Longrightarrow> x \<noteq> NaN \<Longrightarrow> comparable x"
  using round64_on_grid by (cases x) auto

lemma comparable_toFixed1_num: "comparable x \<Longrightarrow> comparable (toFixed1_num x)"
  by (cases x) (auto simp: comparable_round64)

lemma comparable_percent: "x \<noteq> NaN \<Longrightarrow> comparable (js_mul x (Num 100))"
  by (cases x) (auto simp: comparable_round64)

lemma compare_ascending:
  assumes "comparable a" and "comparable b"
  shows "(sortCompare (js_sub a b) \<le> 0) = (js_lt a b \<or> a = b)"
proof (cases a)
  case (Num x)
  show ?thesis
  proof (cases b)
    case (Num y)
    with \<open>a = Num x\<close> assms have "on_grid (x - y)" by (simp add: on_grid_diff)
    from round64_sign [OF this] \<open>a = Num x\<close> Num show ?thesis by auto
  qed (use \<open>a = Num x\<close> assms in auto)
qed (use assms in \<open>cases b; auto\<close>)+

lemma js_order_total: "comparable a \<Longrightarrow> comparable b \<Longrightarrow> (js_lt a b \<or> a = b) \<or> (js_lt b a \<or> b = a)"
  by (cases a; cases b) auto

lemma js_lt_trans: "js_lt a b \<Longrightarrow> js_lt b c \<Longrightarrow> js_lt a c"
  by (cases a; cases b; cases c) auto

lemma indexOfNum_from_found:
  "v \<in> set xs \<Longrightarrow> v \<noteq> NaN \<Longrightarrow>
     k \<le> indexOfNum_from k xs v \<and> indexOfNum_from k xs v < k + int (length xs) \<and>
     xs ! nat (indexOfNum_from k xs v - k) = v"
proof (induction xs arbitrary: k)
  case Nil
  then show ?case by simp
next
  case (Cons x xs)
  show ?case
  proof (cases "x = v")
    case True
    with Cons.prems show ?thesis by (simp add: strict_eq_def)
  next
    case False
    with Cons.prems have "v \<in> set xs" by simp
    from Cons.IH [OF this Cons.prems(2), of "k + 1"]
    have r: "k + 1 \<le> indexOfNum_from (k + 1) xs v"
      "indexOfNum_from (k + 1) xs v < k + 1 + int (length xs)"
      "xs ! nat (indexOfNum_from (k + 1) xs v - (k + 1)) = v"
      by auto
    from r(1) have "nat (indexOfNum_from (k + 1) xs v - k) =
        Suc (nat (indexOfNum_from (k + 1) xs v - (k + 1)))"
      by linarith
    with r False show ?thesis by (simp add: strict_eq_def)
  qed
qed

lemma indexOfNum_from_missing:
  "v \<notin> set xs \<or> v = NaN \<Longrightarrow> indexOfNum_from k xs v = - 1"
  by (induction xs arbitrary: k) (auto simp: strict_eq_def)

lemma indexOfNum_found:
  "v \<in> set xs \<Longrightarrow> v \<noteq> NaN \<Longrightarrow>
     0 \<le> indexOfNum xs v \<and> indexOfNum xs v < int (length xs) \<and> xs ! nat (indexOfNum xs v) = v"
  using indexOfNum_from_found [of v xs 0] by (simp add: indexOfNum_def)

lemma indexOfNum_missing: "v \<notin> set xs \<or> v = NaN \<Longrightarrow> indexOfNum xs v = - 1"
  by (simp add: indexOfNum_def indexOfNum_from_missing)

lemma indexOfNum_neq_minus1_iff: "indexOfNum xs v \<noteq> - 1 \<longleftrightarrow> v \<in> set xs \<and> v \<noteq> NaN"
  using indexOfNum_found [of v xs] indexOfNum_missing [of v xs] by auto

lemma indexOfNum_nonneg: "indexOfNum xs v \<noteq> - 1 \<Longrightarrow> 0 \<le> indexOfNum xs v"
  using indexOfNum_found [of v xs] indexOfNum_missing [of v xs] by auto

lemma indexOfNum_inj:
  assumes "indexOfNum xs a = indexOfNum xs b" and "indexOfNum xs a \<noteq> - 1"
  shows "a = b"
proof -
  from assms(2) have ia: "a \<in> set xs" "a \<noteq> NaN" by (simp_all add: indexOfNum_neq_minus1_iff)
  have "indexOfNum xs b \<noteq> - 1" using assms(2) unfolding assms(1) .
  then have ib: "b \<in> set xs" "b \<noteq> NaN" by (simp_all add: indexOfNum_neq_minus1_iff)
  have A: "xs ! nat (indexOfNum xs a) = a" using indexOfNum_found [OF ia] by blast
  have B: "xs ! nat (indexOfNum xs b) = b" using indexOfNum_found [OF ib] by blast
  from A have C: "xs ! nat (indexOfNum xs b) = a" by (simp only: assms(1))
  from C B show ?thesis by (rule trans [OF sym])
qed

subsection \<open>Facts about the normalisation\<close>

lemma set_uniqueDebtToEbitda: "set (uniqueDebtToEbitda g) = debt_to_ebitda ` set g"
  by (simp add: uniqueDebtToEbitda_def set_sort_by set_array_from_set)

lemma set_uniqueWacc: "set (uniqueWacc g) = waccKey ` set g"
  by (simp add: uniqueWacc_def set_sort_by set_array_from_set)

lemma distinct_uniqueDebtToEbitda: "distinct (uniqueDebtToEbitda g)"
  by (simp add: uniqueDebtToEbitda_def distinct_sort_by distinct_array_from_set)

lemma distinct_uniqueWacc: "distinct (uniqueWacc g)"
  by (simp add: uniqueWacc_def distinct_sort_by distinct_array_from_set)

lemma comparable_waccKey: "wacc d \<noteq> NaN \<Longrightarrow> comparable (waccKey d)"
  by (simp add: waccKey_def comparable_toFixed1_num comparable_percent)

lemma ascending_uniqueDebtToEbitda:
  assumes "\<forall>s \<in> set g. is_double (debt_to_ebitda s) \<and> debt_to_ebitda s \<noteq> NaN"
  shows "sorted_wrt js_lt (uniqueDebtToEbitda g)"
proof -
  let ?W = "{x. comparable x}"
  have sub: "set (array_from_set (map debt_to_ebitda g)) \<subseteq> ?W"
    using assms by (auto simp: set_array_from_set comparable_is_double)
  have "sorted_wrt (\<lambda>a b. js_lt a b \<or> a = b) (uniqueDebtToEbitda g)"
    unfolding uniqueDebtToEbitda_def
  proof (rule sorted_sort_by [where W = ?W])
    show "set (array_from_set (map debt_to_ebitda g)) \<subseteq> ?W" by (rule sub)
  next
    fix a b assume "a \<in> ?W" and "b \<in> ?W"
    then show "(sortCompare (js_sub a b) \<le> 0) = (js_lt a b \<or> a = b)"
      by (simp add: compare_ascending)
  next
    fix a b assume "a \<in> ?W" and "b \<in> ?W"
    then show "(js_lt a b \<or> a = b) \<or> (js_lt b a \<or> b = a)"
      using js_order_total [of a b] by blast
  next
    fix a b c assume "js_lt a b \<or> a = b" and "js_lt b c \<or> b = c"
    then show "js_lt a c \<or> a = c" by (auto intro: js_lt_trans)
  qed
  then show ?thesis
    by (rule strict_of_sorted_distinct) (auto simp: distinct_uniqueDebtToEbitda)
qed

lemma descending_uniqueWacc:
  assumes "\<forall>s \<in> set g. wacc s \<noteq> NaN"
  shows "sorted_wrt (\<lambda>a b. js_lt b a) (uniqueWacc g)"
proof -
  let ?W = "{x. comparable x}"
  have sub: "set (array_from_set (map waccKey g)) \<subseteq> ?W"
    using assms by (auto simp: set_array_from_set comparable_waccKey)
  have "sorted_wrt (\<lambda>a b. js_lt b a \<or> b = a) (uniqueWacc g)"
    unfolding uniqueWacc_def
  proof (rule sorted_sort_by [where W = ?W])
    show "set (array_from_set (map waccKey g)) \<subseteq> ?W" by (rule sub)
  next
    fix a b assume "a \<in> ?W" and "b \<in> ?W"
    then show "(sortCompare (js_sub b a) \<le> 0) = (js_lt b a \<or> b = a)"
      by (simp add: compare_ascending)
  next
    fix a b assume "a \<in> ?W" and "b \<in> ?W"
    then show "(js_lt b a \<or> b = a) \<or> (js_lt a b \<or> a = b)"
      using js_order_total [of a b] by blast
  next
    fix a b c assume "js_lt b a \<or> b = a" and "js_lt c b \<or> c = b"
    then show "js_lt c a \<or> c = a" by (auto intro: js_lt_trans)
  qed
  then show ?thesis
    by (rule strict_of_sorted_distinct) (auto simp: distinct_uniqueWacc)
qed

text \<open>
  The key of a finite wacc whose percentage stays below \<open>10^21\<close> is the binary64 value
  of a number with one decimal, at most \<open>0.05\<close> away from the percentage.
\<close>

lemma nearest_tenth:
  fixes p :: rat
  shows "\<bar>of_int \<lfloor>p * 10 + 1 / 2\<rfloor> / 10 - p\<bar> \<le> 1 / 20"
proof -
  define q :: rat where "q = of_int \<lfloor>p * 10 + 1 / 2\<rfloor>"
  have "q \<le> p * 10 + 1 / 2" and "p * 10 + 1 / 2 < q + 1" unfolding q_def by linarith+
  then have "q / 10 - p \<le> 1 / 20" and "- (1 / 20) \<le> q / 10 - p" by simp_all
  then have "\<bar>q / 10 - p\<bar> \<le> 1 / 20" by (simp only: abs_le_iff) simp
  then show ?thesis by (simp only: q_def)
qed

lemma waccKey_one_decimal:
  assumes "js_mul (wacc d) (Num 100) = Num p" and "\<bar>p\<bar> < 10 ^ 21"
  shows "\<exists>n::int. waccKey d = round64 (of_int n / 10) \<and> \<bar>of_int n / 10 - p\<bar> \<le> 1 / 20"
proof (cases "p < 0")
  case False
  let ?n = "\<lfloor>p * 10 + 1 / 2\<rfloor>"
  have "\<bar>of_int ?n / 10 - p\<bar> \<le> 1 / 20" by (rule nearest_tenth)
  moreover from False assms have "waccKey d = round64 (of_int ?n / 10)"
    by (simp add: waccKey_def)
  ultimately show ?thesis by blast
next
  case True
  let ?n = "\<lfloor>(- p) * 10 + 1 / 2\<rfloor>"
  have "\<bar>of_int ?n / 10 - (- p)\<bar> \<le> 1 / 20" by (rule nearest_tenth)
  then have "\<bar>- (of_int ?n / 10 - (- p))\<bar> \<le> 1 / 20" by (simp only: abs_minus_cancel)
  then have "\<bar>of_int (- ?n) / 10 - p\<bar> \<le> 1 / 20" by simp
  moreover from True assms have "waccKey d = round64 (of_int (- ?n) / 10)"
    by (simp add: waccKey_def)
  ultimately show ?thesis by blast
qed

lemma length_fillCell: "length (fillCell xs ys row m) = length m"
  by (simp add: fillCell_def Let_def)

lemma row_length_update:
  "length (m[i := (m ! i)[j := v]] ! y) = length ((m :: 'a list list) ! y)"
proof (cases "i = y")
  case False
  then show ?thesis by simp
next
  case True
  show ?thesis
  proof (cases "y < length m")
    case True
    with \<open>i = y\<close> show ?thesis by simp
  next
    case False
    with \<open>i = y\<close> show ?thesis by (simp add: list_update_beyond)
  qed
qed

lemma row_length_fillCell: "length (fillCell xs ys row m ! y) = length (m ! y)"
  by (simp add: fillCell_def Let_def row_length_update)

lemma length_fillMatrix: "length (fillMatrix xs ys g m) = length m"
  unfolding fillMatrix_def by (induction g arbitrary: m) (auto simp: length_fillCell)

lemma row_length_fillMatrix: "length (fillMatrix xs ys g m ! y) = length (m ! y)"
  unfolding fillMatrix_def by (induction g arbitrary: m) (auto simp: row_length_fillCell)

text \<open>What one iteration of the fill does to a cell inside the matrix.\<close>

lemma fillCell_cell:
  assumes "y < length m" and "x < length (m ! y)"
  shows "fillCell xs ys row m ! y ! x =
    (if indexOfNum xs (debt_to_ebitda row) = int x \<and> indexOfNum ys (waccKey row) = int y
     then js_mul (equity_irr row) (Num 100) else m ! y ! x)"
proof (cases "indexOfNum xs (debt_to_ebitda row) \<noteq> - 1 \<and> indexOfNum ys (waccKey row) \<noteq> - 1")
  case False
  then have same: "fillCell xs ys row m = m" by (auto simp: fillCell_def Let_def)
  from False
  have "(indexOfNum xs (debt_to_ebitda row) = int x \<and> indexOfNum ys (waccKey row) = int y) = False"
    by auto
  then show ?thesis by (simp only: same if_False)
next
  case True
  then have nn: "0 \<le> indexOfNum xs (debt_to_ebitda row)" "0 \<le> indexOfNum ys (waccKey row)"
    by (auto dest: indexOfNum_nonneg)
  then have eqs:
    "nat (indexOfNum xs (debt_to_ebitda row)) = x \<longleftrightarrow> indexOfNum xs (debt_to_ebitda row) = int x"
    "nat (indexOfNum ys (waccKey row)) = y \<longleftrightarrow> indexOfNum ys (waccKey row) = int y"
    by auto
  from True have "fillCell xs ys row m =
      m[nat (indexOfNum ys (waccKey row)) :=
        (m ! nat (indexOfNum ys (waccKey row)))
          [nat (indexOfNum xs (debt_to_ebitda row)) := js_mul (equity_irr row) (Num 100)]]"
    by (simp add: fillCell_def Let_def)
  with assms eqs show ?thesis
    by (auto simp: nth_list_update)
qed

lemma fillMatrix_untouched:
  assumes "y < length m" and "x < length (m ! y)"
    and "\<forall>s \<in> set g. \<not> (indexOfNum xs (debt_to_ebitda s) = int x \<and> indexOfNum ys (waccKey s) = int y)"
  shows "fillMatrix xs ys g m ! y ! x = m ! y ! x"
  using assms unfolding fillMatrix_def
proof (induction g arbitrary: m)
  case Nil
  then show ?case by simp
next
  case (Cons s g)
  have "fold (fillCell xs ys) g (fillCell xs ys s m) ! y ! x = fillCell xs ys s m ! y ! x"
    using Cons.prems by (intro Cons.IH) (auto simp: length_fillCell row_length_fillCell)
  also have "\<dots> = m ! y ! x"
  proof -
    from Cons.prems(3)
    have "(indexOfNum xs (debt_to_ebitda s) = int x \<and> indexOfNum ys (waccKey s) = int y) = False"
      by simp
    then show ?thesis
      by (simp only: fillCell_cell [OF Cons.prems(1,2)] if_False)
  qed
  finally show ?case by simp
qed

lemma fillMatrix_last_write:
  assumes "y < length m" and "x < length (m ! y)"
    and "indexOfNum xs (debt_to_ebitda s) = int x" and "indexOfNum ys (waccKey s) = int y"
    and "\<forall>t \<in> set post. \<not> (indexOfNum xs (debt_to_ebitda t) = int x \<and> indexOfNum ys (waccKey t) = int y)"
  shows "fillMatrix xs ys (pre @ s # post) m ! y ! x = js_mul (equity_irr s) (Num 100)"
proof -
  let ?m1 = "fillMatrix xs ys pre m"
  let ?m2 = "fillCell xs ys s ?m1"
  have shape1: "y < length ?m1" "x < length (?m1 ! y)"
    using assms(1,2) by (simp_all add: length_fillMatrix row_length_fillMatrix)
  then have shape2: "y < length ?m2" "x < length (?m2 ! y)"
    by (simp_all add: length_fillCell row_length_fillCell)
  have "fillMatrix xs ys (pre @ s # post) m = fillMatrix xs ys post ?m2"
    by (simp add: fillMatrix_def)
  also have "\<dots> ! y ! x = ?m2 ! y ! x"
    using shape2 assms(5) by (rule fillMatrix_untouched)
  also have "\<dots> = js_mul (equity_irr s) (Num 100)"
    using shape1 assms(3,4) by (simp add: fillCell_cell)
  finally show ?thesis .
qed

lemma length_matrix: "length (matrix g) = length (uniqueWacc g)"
  by (simp add: matrix_def length_fillMatrix zeroMatrix_def)

lemma row_length_matrix:
  "y < length (uniqueWacc g) \<Longrightarrow> length (matrix g ! y) = length (uniqueDebtToEbitda g)"
  by (simp add: matrix_def row_length_fillMatrix zeroMatrix_def)

text \<open>
  The last grid row with a given pair of keys decides the cell of that pair: rows after
  it write other cells, because \<open>indexOf\<close> sends different keys to different indices.
\<close>

lemma matrix_last_write:
  assumes "\<forall>t \<in> set post. \<not> (debt_to_ebitda t = debt_to_ebitda s \<and> waccKey t = waccKey s)"
    and "indexOfNum (uniqueDebtToEbitda (pre @ s # post)) (debt_to_ebitda s) = int x"
    and "indexOfNum (uniqueWacc (pre @ s # post)) (waccKey s) = int y"
  shows "matrix (pre @ s # post) ! y ! x = js_mul (equity_irr s) (Num 100)"
proof -
  let ?g = "pre @ s # post"
  let ?xs = "uniqueDebtToEbitda ?g" and ?ys = "uniqueWacc ?g"
  from assms(2) have fx: "indexOfNum ?xs (debt_to_ebitda s) \<noteq> - 1" by simp
  from assms(3) have fy: "indexOfNum ?ys (waccKey s) \<noteq> - 1" by simp
  from fx have sx: "debt_to_ebitda s \<in> set ?xs" "debt_to_ebitda s \<noteq> NaN"
    by (simp_all add: indexOfNum_neq_minus1_iff)
  from fy have sy: "waccKey s \<in> set ?ys" "waccKey s \<noteq> NaN"
    by (simp_all add: indexOfNum_neq_minus1_iff)
  from indexOfNum_found [OF sx] assms(2) have x: "x < length ?xs" by simp
  from indexOfNum_found [OF sy] assms(3) have y: "y < length ?ys" by simp
  have other: "\<forall>t \<in> set post. \<not> (indexOfNum ?xs (debt_to_ebitda t) = int x \<and>
      indexOfNum ?ys (waccKey t) = int y)"
  proof
    fix t assume t: "t \<in> set post"
    show "\<not> (indexOfNum ?xs (debt_to_ebitda t) = int x \<and> indexOfNum ?ys (waccKey t) = int y)"
    proof
      assume "indexOfNum ?xs (debt_to_ebitda t) = int x \<and> indexOfNum ?ys (waccKey t) = int y"
      with assms(2,3)
      have e1: "indexOfNum ?xs (debt_to_ebitda s) = indexOfNum ?xs (debt_to_ebitda t)"
        and e2: "indexOfNum ?ys (waccKey s) = indexOfNum ?ys (waccKey t)" by simp_all
      from e1 fx have "debt_to_ebitda s = debt_to_ebitda t" by (rule indexOfNum_inj)
      moreover from e2 fy have "waccKey s = waccKey t" by (rule indexOfNum_inj)
      ultimately show False using assms(1) t by auto
    qed
  qed
  have "fillMatrix ?xs ?ys ?g (zeroMatrix ?xs ?ys) ! y ! x = js_mul (equity_irr s) (Num 100)"
    using x y assms(2,3) other
    by (intro fillMatrix_last_write) (simp_all add: zeroMatrix_def)
  then show ?thesis by (simp add: matrix_def)
qed

subsection \<open>Facts about the heat-map component\<close>

lemma set_add_all_distinct: "distinct (acc @ xs) \<Longrightarrow> set_add_all acc xs = acc @ xs"
  by (induction xs arbitrary: acc) auto

lemma array_from_set_distinct: "distinct xs \<Longrightarrow> array_from_set xs = xs"
  by (simp add: array_from_set_def set_add_all_distinct)

lemma indexOf_from_nth:
  "distinct xs \<Longrightarrow> i < length xs \<Longrightarrow> indexOf_from k xs (xs ! i) = k + int i"
proof (induction xs arbitrary: k i)
  case Nil
  then show ?case by simp
next
  case (Cons x xs)
  show ?case
  proof (cases i)
    case 0
    then show ?thesis by simp
  next
    case (Suc i')
    with Cons.prems have "xs ! i' \<noteq> x" "i' < length xs" "distinct xs" by auto
    with Cons.IH [of i' "k + 1"] Suc show ?thesis by simp
  qed
qed

lemma indexOf_nth: "distinct xs \<Longrightarrow> i < length xs \<Longrightarrow> indexOf xs (xs ! i) = int i"
  by (simp add: indexOf_def indexOf_from_nth)

lemma band_apply_reversed:
  assumes "r1 < r0" and "distinct labels" and "i < length labels"
  shows "band_apply (scaleBand labels r0 r1 pad) (nth_opt labels i) =
    Some (r1 + (r0 - r1 - (r0 - r1) / max 1 (of_nat (length labels) - min 1 pad + pad * 2)
               * (of_nat (length labels) - min 1 pad)) * (1 / 2)
          + (r0 - r1) / max 1 (of_nat (length labels) - min 1 pad + pad * 2)
            * of_nat (length labels - 1 - i))"
proof -
  let ?n = "length labels"
  have up: "[0..<?n] ! (?n - Suc i) = ?n - 1 - i"
    using assms(3) by simp
  have "rev (map f [0..<?n]) ! i = f (?n - 1 - i)" for f :: "nat \<Rightarrow> rat"
    using assms(3) by (simp add: rev_nth up del: upt_Suc)
  with assms show ?thesis
    by (simp add: band_apply_def scaleBand_def Let_def nth_opt_def array_from_set_distinct
        indexOf_nth del: upt_Suc)
qed

lemma or0_Some: "or0 (Some v) = v"
  by (simp add: or0_def)

lemma yCoord_tall:
  assumes "100 < heightOf p" and "distinct (yLabels p)" and "i < length (yLabels p)"
  shows "yCoord p i =
     (innerHeight p - innerHeight p / (of_nat (length (yLabels p)) + 1 / 20)
               * (of_nat (length (yLabels p)) - 1 / 20)) * (1 / 2)
     + innerHeight p / (of_nat (length (yLabels p)) + 1 / 20) * of_nat (length (yLabels p) - 1 - i)"
proof -
  from assms(1) have h: "0 < innerHeight p" by (simp add: innerHeight_def)
  from assms(3) have n: "1 \<le> (of_nat (length (yLabels p)) :: rat)" by (cases "yLabels p") simp_all
  then have mx: "max 1 (of_nat (length (yLabels p)) - min 1 (5 / 100) + 5 / 100 * 2)
      = (of_nat (length (yLabels p)) + 1 / 20 :: rat)" by (simp add: max_def)
  have mn: "min 1 (5 / 100 :: rat) = 1 / 20" by simp
  show ?thesis
    unfolding yCoord_def yScale_def band_apply_reversed [OF h assms(2,3)] or0_Some mx
    by (simp add: mn)
qed

lemma forEach_all_ok:
  assumes "\<And>k. k \<in> set ks \<Longrightarrow> body k = Inr (f k)"
  shows "forEach ks body = Inr (concat (map f ks))"
  using assms by (induction ks) auto

lemma rowLength_in_range: "i < length d \<Longrightarrow> rowLength d i = Inr (length (d ! i))"
  by (simp add: rowLength_def nth_opt_def)

lemma readCell_in_range:
  "i < length d \<Longrightarrow> j < length (d ! i) \<Longrightarrow> readCell d i j = Inr (d ! i ! j)"
  by (simp add: readCell_def nth_opt_def)

lemma drawCells_ok: "drawCells p mk = Inr (cellsOf p mk)"
  unfolding drawCells_def cellsOf_def
proof (rule forEach_all_ok)
  fix i assume "i \<in> set [0..<length (data p)]"
  then have i: "i < length (data p)" by simp
  have "forEach [0..<length (data p ! i)]
          (\<lambda>j. case readCell (data p) i j of Inl e \<Rightarrow> Inl e | Inr v \<Rightarrow> Inr [mk i j v])
        = Inr (concat (map (\<lambda>j. [mk i j (data p ! i ! j)]) [0..<length (data p ! i)]))"
    by (rule forEach_all_ok) (simp add: readCell_in_range [OF i])
  then show "(case rowLength (data p) i of Inl e \<Rightarrow> Inl e
        | Inr n \<Rightarrow> forEach [0..<n]
            (\<lambda>j. case readCell (data p) i j of Inl e \<Rightarrow> Inl e | Inr v \<Rightarrow> Inr [mk i j v]))
      = Inr (concat (map (\<lambda>j. [mk i j (data p ! i ! j)]) [0..<length (data p ! i)]))"
    by (simp add: rowLength_in_range [OF i])
qed

lemma cell_in_cellsOf:
  assumes "i < length (data p)" and "j < length (data p ! i)"
  shows "mk i j (data p ! i ! j) \<in> set (cellsOf p mk)"
proof -
  from assms(2) have "mk i j (data p ! i ! j)
      \<in> set (concat (map (\<lambda>j. [mk i j (data p ! i ! j)]) [0..<length (data p ! i)]))"
    by (auto simp del: upt_Suc)
  with assms(1) show ?thesis
    unfolding cellsOf_def by (auto simp del: upt_Suc intro!: bexI [of _ i])
qed

lemma HeatmapChart_nonempty:
  assumes "data p \<noteq> []"
  shows "HeatmapChart p (Some target) =
    Inr (Some \<lparr>svg_width = Some (widthOf p), svg_height = Some (heightOf p),
      children =
        Group 60 40 (cellsOf p (cellRect p) @ cellsOf p (cellText p)
            @ [AxisBottom (innerHeight p) (xScale p), AxisLeft (yScale p)])
        # titleElement p
        @ [CaptionX (widthOf p / 2) (heightOf p - 10) ''Terminal Growth Rate (%)'',
           CaptionY (- heightOf p / 2) 15 ''WACC (%)'']\<rparr>)"
  using assms by (simp add: HeatmapChart_def Let_def drawCells_ok)

lemma HeatmapChart_empty: "data p = [] \<Longrightarrow> HeatmapChart p current = Inr current"
  by (cases current) (simp_all add: HeatmapChart_def)

lemma d3_min_fold:
  "fold (\<lambda>v acc. case acc of None \<Rightarrow> Some v
           | Some lo \<Rightarrow> (if lo > v then Some v else Some lo)) xs (Some (a::rat))
   = Some (fold min xs a)"
proof (induction xs arbitrary: a)
  case Nil
  then show ?case by simp
next
  case (Cons x xs)
  have "(if x < a then x else a) = min x a" by (simp add: min_def)
  with Cons show ?case by simp
qed

lemma d3_max_fold:
  "fold (\<lambda>v acc. case acc of None \<Rightarrow> Some v
           | Some hi \<Rightarrow> (if hi < v then Some v else Some hi)) xs (Some (a::rat))
   = Some (fold max xs a)"
proof (induction xs arbitrary: a)
  case Nil
  then show ?case by simp
next
  case (Cons x xs)
  have "(if a < x then x else a) = max x a" by (simp add: max_def)
  with Cons show ?case by simp
qed

lemma d3_min_nonempty: "xs \<noteq> [] \<Longrightarrow> d3_min xs = Some (Min (set xs))"
  by (cases xs) (simp_all add: d3_min_def d3_min_fold Min.set_eq_fold del: set_simps)

lemma d3_max_nonempty: "xs \<noteq> [] \<Longrightarrow> d3_max xs = Some (Max (set xs))"
  by (cases xs) (simp_all add: d3_max_def d3_max_fold Max.set_eq_fold del: set_simps)

lemma nth_opt_beyond: "length xs \<le> i \<Longrightarrow> nth_opt xs i = None"
  by (simp add: nth_opt_def)

lemma yCoord_beyond: "length (yLabels p) \<le> i \<Longrightarrow> yCoord p i = 0"
  by (simp add: yCoord_def nth_opt_beyond band_apply_def or0_def)

lemma xCoord_beyond: "length (xLabels p) \<le> j \<Longrightarrow> xCoord p j = 0"
  by (simp add: xCoord_def nth_opt_beyond band_apply_def or0_def)

lemma HeatmapChart_draws_cell:
  assumes "i < length (data p)" and "j < length (data p ! i)"
  shows "\<exists>s kids rest. HeatmapChart p (Some target) = Inr (Some s) \<and>
     children s = Group 60 40 kids # rest \<and>
     cellRect p i j (data p ! i ! j) \<in> set kids \<and>
     cellText p i j (data p ! i ! j) \<in> set kids"
proof -
  from assms(1) have ne: "data p \<noteq> []" by auto
  have "cellRect p i j (data p ! i ! j) \<in> set (cellsOf p (cellRect p))"
    and "cellText p i j (data p ! i ! j) \<in> set (cellsOf p (cellText p))"
    using assms by (rule cell_in_cellsOf)+
  then show ?thesis
    unfolding HeatmapChart_nonempty [OF ne] by simp
qed

section \<open>The claims\<close>

subsection \<open>C1: vertical position of the first row\<close>

text \<open>
  C1, as stated: the y coordinate assigned to \<open>yLabels[0]\<close> is strictly smaller than the
  one assigned to every later label, so row 0 is at the top. This fails: the y scale is
  given the range \<open>[innerHeight, 0]\<close>, so with the default height the first of the two
  labels is drawn at \<open>6300/41\<close> and the second at \<open>300/41\<close>.
\<close>

theorem row0_top_counterexample:
  "\<not> yCoord \<lparr>data = [[0, 18], [22, 0]], xLabels = [''3.0x'', ''5.0x''],
              yLabels = [''10.0%'', ''8.0%''], title = None, width = None, height = None\<rparr> 0
     < yCoord \<lparr>data = [[0, 18], [22, 0]], xLabels = [''3.0x'', ''5.0x''],
              yLabels = [''10.0%'', ''8.0%''], title = None, width = None, height = None\<rparr> 1"
  by (simp add: yCoord_def yScale_def scaleBand_def band_apply_def innerHeight_def heightOf_def
      nth_opt_def or0_def indexOf_def array_from_set_def Let_def)

text \<open>
  C1, amended: when the height exceeds 100 (the inner height is positive) and the y labels
  are pairwise distinct, the y coordinate assigned to \<open>yLabels[0]\<close> is strictly larger
  than the one assigned to \<open>yLabels[i]\<close> for every \<open>i > 0\<close>: row 0 is at the bottom of
  the inner plotting area.
\<close>

theorem row0_at_bottom:
  assumes "100 < heightOf p" and "distinct (yLabels p)"
    and "0 < i" and "i < length (yLabels p)"
  shows "yCoord p i < yCoord p 0"
proof -
  from assms(1) have h: "0 < innerHeight p" by (simp add: innerHeight_def)
  have n0: "0 < length (yLabels p)" using assms(4) by linarith
  let ?n = "length (yLabels p)"
  let ?step = "innerHeight p / (of_nat ?n + 1 / 20)"
  have "0 < ?step" using h by (simp add: add_pos_nonneg)
  moreover have "(of_nat (?n - 1 - i) :: rat) < of_nat (?n - 1 - 0)"
    using assms(3,4) by simp
  ultimately have "?step * of_nat (?n - 1 - i) < ?step * of_nat (?n - 1 - 0)"
    by (simp only: mult_less_cancel_left_pos)
  then have "yCoord p i < yCoord p 0"
    unfolding yCoord_tall [OF assms(1,2,4)] yCoord_tall [OF assms(1,2) n0]
    by (rule add_strict_left_mono)
  then show ?thesis .
qed

theorem row0_at_bottom_witness:
  "yCoord \<lparr>data = [[1], [2], [3]], xLabels = [''4.0x''],
            yLabels = [''12.0%'', ''10.0%'', ''8.0%''], title = None, width = None,
            height = Some 300\<rparr> 2
   < yCoord \<lparr>data = [[1], [2], [3]], xLabels = [''4.0x''],
            yLabels = [''12.0%'', ''10.0%'', ''8.0%''], title = None, width = None,
            height = Some 300\<rparr> 0"
proof -
  let ?p = "\<lparr>data = [[1], [2], [3]], xLabels = [''4.0x''],
            yLabels = [''12.0%'', ''10.0%'', ''8.0%''], title = None, width = None,
            height = Some (300::rat)\<rparr>"
  have "100 < heightOf ?p" by (simp add: heightOf_def)
  moreover have "distinct (yLabels ?p)" by simp
  moreover have "(0::nat) < 2" by simp
  moreover have "2 < length (yLabels ?p)" by simp
  ultimately show ?thesis by (rule row0_at_bottom)
qed

subsection \<open>C2: empty input and clearing\<close>

text \<open>
  C2, as stated: for an empty matrix the render does not throw, every invocation first
  clears all prior content of the target, and the result is an empty canvas with just the
  margins and the title. This fails: with no rows the effect returns before the clearing
  step, so a target that holds an earlier drawing keeps it, and the title is not drawn.
\<close>

theorem empty_keeps_prior_counterexample:
  "HeatmapChart
     \<lparr>data = [], xLabels = [], yLabels = [], title = Some ''Equity IRR'',
      width = None, height = None\<rparr>
     (Some \<lparr>svg_width = Some 600, svg_height = Some 400,
            children = [CaptionY (- 200) 15 ''WACC (%)'']\<rparr>)
   = Inr (Some \<lparr>svg_width = Some 600, svg_height = Some 400,
            children = [CaptionY (- 200) 15 ''WACC (%)'']\<rparr>)"
  by (simp add: HeatmapChart_def)

text \<open>
  C2, amended: for an empty matrix the render does not throw and leaves the target exactly
  as it was (nothing is cleared and nothing is drawn, the title included). For a matrix
  with at least one row and a mounted target the render does not throw and first clears
  all prior content: its result does not depend on what the target held before.
\<close>

theorem clears_unless_empty:
  "(data p = [] \<longrightarrow> HeatmapChart p current = Inr current) \<and>
   (data p \<noteq> [] \<longrightarrow>
      (\<exists>s. HeatmapChart p (Some target) = Inr (Some s)) \<and>
      HeatmapChart p (Some (target\<lparr>children := prior\<rparr>))
        = HeatmapChart p (Some (target\<lparr>children := []\<rparr>)))"
  by (simp add: HeatmapChart_empty HeatmapChart_nonempty)

theorem clears_unless_empty_witness:
  "HeatmapChart \<lparr>data = [], xLabels = [], yLabels = [], title = None,
        width = None, height = None\<rparr>
     (Some \<lparr>svg_width = None, svg_height = None, children = [Title 300 20 ''old'']\<rparr>)
     = Inr (Some \<lparr>svg_width = None, svg_height = None, children = [Title 300 20 ''old'']\<rparr>)
   \<and> (\<exists>s. HeatmapChart \<lparr>data = [[7]], xLabels = [''3.0x''], yLabels = [''8.0%''],
        title = None, width = None, height = None\<rparr>
        (Some \<lparr>svg_width = None, svg_height = None, children = []\<rparr>) = Inr (Some s))
   \<and> HeatmapChart \<lparr>data = [[7]], xLabels = [''3.0x''], yLabels = [''8.0%''],
        title = None, width = None, height = None\<rparr>
        (Some \<lparr>svg_width = None, svg_height = None, children = [Title 300 20 ''old'']\<rparr>)
     = HeatmapChart \<lparr>data = [[7]], xLabels = [''3.0x''], yLabels = [''8.0%''],
        title = None, width = None, height = None\<rparr>
        (Some \<lparr>svg_width = None, svg_height = None, children = []\<rparr>)"
proof -
  let ?e = "\<lparr>data = [], xLabels = [], yLabels = [], title = None,
        width = None, height = None\<rparr>"
  let ?p = "\<lparr>data = [[7]], xLabels = [''3.0x''], yLabels = [''8.0%''],
        title = None, width = None, height = None\<rparr>"
  let ?t = "\<lparr>svg_width = None, svg_height = None, children = []\<rparr>"
  have "data ?e = []" and "data ?p \<noteq> []" by simp_all
  with clears_unless_empty [of ?e "Some (?t\<lparr>children := [Title 300 20 ''old'']\<rparr>)"]
    clears_unless_empty [of ?p _ ?t "[Title 300 20 ''old'']"]
  show ?thesis by simp
qed

subsection \<open>C3: scenario A\<close>

text \<open>
  C3: for the samples \<open>{leverage 3, wacc 0.08, equity_irr 0.22}\<close> and
  \<open>{leverage 5, wacc 0.10, equity_irr 0.18}\<close> the normalisation produces the x keys
  \<open>[3, 5]\<close>, the y keys \<open>[10.0, 8.0]\<close> and the matrix \<open>[[0, 18], [22, 0]]\<close>. The
  fractions are the binary64 values of the decimal literals.
\<close>

theorem scenario_A:
  "normalizeGrid
     [\<lparr>debt_to_ebitda = Num 3, wacc = round64 (8 / 100), equity_irr = round64 (22 / 100)\<rparr>,
      \<lparr>debt_to_ebitda = Num 5, wacc = round64 (10 / 100), equity_irr = round64 (18 / 100)\<rparr>]
   = ([Num 3, Num 5], [Num 10, Num 8], [[Num 0, Num 18], [Num 22, Num 0]])"
  by (simp add: normalizeGrid_def uniqueDebtToEbitda_def uniqueWacc_def matrix_def
      fillMatrix_def fillCell_def zeroMatrix_def waccKey_def array_from_set_def
      indexOfNum_def strict_eq_def js_eval)

subsection \<open>C4: round trip\<close>

text \<open>
  C4: for every sample sequence and every sample in it that is the last one with its
  pair of keys (leverage, rounded percentage wacc): if the pair maps to the axis indices
  \<open>(x, y)\<close>, then the cell \<open>matrix[y][x]\<close> exists and holds that sample's \<open>equity_irr\<close>
  times 100, the product being the binary64 product the code computes.
\<close>

theorem round_trip_last_sample:
  assumes "gridData = before @ s # after"
    and "\<forall>t \<in> set after. \<not> (debt_to_ebitda t = debt_to_ebitda s \<and> waccKey t = waccKey s)"
    and "indexOfNum (uniqueDebtToEbitda gridData) (debt_to_ebitda s) = int x"
    and "indexOfNum (uniqueWacc gridData) (waccKey s) = int y"
  shows "y < length (matrix gridData) \<and> x < length (matrix gridData ! y) \<and>
    matrix gridData ! y ! x = js_mul (equity_irr s) (Num 100)"
proof -
  from assms(3) have "indexOfNum (uniqueDebtToEbitda gridData) (debt_to_ebitda s) \<noteq> - 1"
    by simp
  then have sx: "debt_to_ebitda s \<in> set (uniqueDebtToEbitda gridData)"
    "debt_to_ebitda s \<noteq> NaN" by (simp_all add: indexOfNum_neq_minus1_iff)
  from assms(4) have "indexOfNum (uniqueWacc gridData) (waccKey s) \<noteq> - 1" by simp
  then have sy: "waccKey s \<in> set (uniqueWacc gridData)" "waccKey s \<noteq> NaN"
    by (simp_all add: indexOfNum_neq_minus1_iff)
  from indexOfNum_found [OF sx] assms(3) have x: "x < length (uniqueDebtToEbitda gridData)"
    by simp
  from indexOfNum_found [OF sy] assms(4) have y: "y < length (uniqueWacc gridData)"
    by simp
  have "matrix gridData ! y ! x = js_mul (equity_irr s) (Num 100)"
    using assms(2-4) unfolding assms(1) by (rule matrix_last_write)
  with x y show ?thesis by (simp add: length_matrix row_length_matrix)
qed

theorem round_trip_last_sample_witness:
  "matrix [\<lparr>debt_to_ebitda = Num 3, wacc = round64 (905 / 10000), equity_irr = round64 (1 / 10)\<rparr>,
           \<lparr>debt_to_ebitda = Num 3, wacc = round64 (9 / 100), equity_irr = round64 (29 / 100)\<rparr>,
           \<lparr>debt_to_ebitda = Num 5, wacc = round64 (10 / 100), equity_irr = round64 (18 / 100)\<rparr>]
     ! 1 ! 0 = Num (8162774324609023 / 281474976710656)"
proof -
  let ?a = "\<lparr>debt_to_ebitda = Num 3, wacc = round64 (905 / 10000), equity_irr = round64 (1 / 10)\<rparr>"
  let ?s = "\<lparr>debt_to_ebitda = Num 3, wacc = round64 (9 / 100), equity_irr = round64 (29 / 100)\<rparr>"
  let ?c = "\<lparr>debt_to_ebitda = Num 5, wacc = round64 (10 / 100), equity_irr = round64 (18 / 100)\<rparr>"
  have 1: "[?a, ?s, ?c] = [?a] @ ?s # [?c]" by simp
  have 2: "\<forall>t \<in> set [?c]. \<not> (debt_to_ebitda t = debt_to_ebitda ?s \<and> waccKey t = waccKey ?s)"
    by simp
  have 3: "indexOfNum (uniqueDebtToEbitda [?a, ?s, ?c]) (debt_to_ebitda ?s) = int 0"
    by (simp add: uniqueDebtToEbitda_def array_from_set_def indexOfNum_def strict_eq_def js_eval)
  have 4: "indexOfNum (uniqueWacc [?a, ?s, ?c]) (waccKey ?s) = int 1"
    by (simp add: uniqueWacc_def array_from_set_def indexOfNum_def strict_eq_def waccKey_def
        js_eval)
  have 5: "js_mul (equity_irr ?s) (Num 100) = Num (8162774324609023 / 281474976710656)"
    by (simp add: js_eval)
  from round_trip_last_sample [OF 1 2 3 4]
  have "matrix [?a, ?s, ?c] ! 1 ! 0 = js_mul (equity_irr ?s) (Num 100)" by blast
  then show ?thesis by (simp only: 5)
qed

subsection \<open>C5: shape of the matrix and the default cell\<close>

text \<open>
  C5: for every sample sequence the matrix has exactly as many rows as there are y keys,
  every row has as many cells as there are x keys, and every cell whose pair of indices
  no sample produces is 0.
\<close>

theorem matrix_shape_and_default:
  "length (matrix g) = length (uniqueWacc g) \<and>
   (\<forall>row \<in> set (matrix g). length row = length (uniqueDebtToEbitda g)) \<and>
   (\<forall>y x. y < length (uniqueWacc g) \<and> x < length (uniqueDebtToEbitda g) \<and>
      (\<forall>s \<in> set g. \<not> (indexOfNum (uniqueDebtToEbitda g) (debt_to_ebitda s) = int x \<and>
                        indexOfNum (uniqueWacc g) (waccKey s) = int y))
      \<longrightarrow> matrix g ! y ! x = Num 0)"
proof (intro conjI allI impI ballI)
  show "length (matrix g) = length (uniqueWacc g)" by (rule length_matrix)
next
  fix row assume "row \<in> set (matrix g)"
  then obtain y where "y < length (matrix g)" and "row = matrix g ! y"
    by (auto simp: in_set_conv_nth)
  then show "length row = length (uniqueDebtToEbitda g)"
    by (simp add: length_matrix row_length_matrix)
next
  fix y x
  assume a: "y < length (uniqueWacc g) \<and> x < length (uniqueDebtToEbitda g) \<and>
      (\<forall>s \<in> set g. \<not> (indexOfNum (uniqueDebtToEbitda g) (debt_to_ebitda s) = int x \<and>
                        indexOfNum (uniqueWacc g) (waccKey s) = int y))"
  let ?z = "zeroMatrix (uniqueDebtToEbitda g) (uniqueWacc g)"
  from a have "y < length ?z" and "x < length (?z ! y)" by (simp_all add: zeroMatrix_def)
  moreover from a
  have "\<forall>s \<in> set g. \<not> (indexOfNum (uniqueDebtToEbitda g) (debt_to_ebitda s) = int x \<and>
                        indexOfNum (uniqueWacc g) (waccKey s) = int y)" by simp
  ultimately have "fillMatrix (uniqueDebtToEbitda g) (uniqueWacc g) g ?z ! y ! x = ?z ! y ! x"
    by (rule fillMatrix_untouched)
  with a show "matrix g ! y ! x = Num 0" by (simp add: matrix_def zeroMatrix_def)
qed

theorem matrix_shape_and_default_witness:
  "length (matrix
      [\<lparr>debt_to_ebitda = Num 3, wacc = round64 (905 / 10000), equity_irr = round64 (1 / 10)\<rparr>,
       \<lparr>debt_to_ebitda = Num 5, wacc = round64 (8 / 100), equity_irr = round64 (2 / 10)\<rparr>]) = 2
   \<and> matrix
      [\<lparr>debt_to_ebitda = Num 3, wacc = round64 (905 / 10000), equity_irr = round64 (1 / 10)\<rparr>,
       \<lparr>debt_to_ebitda = Num 5, wacc = round64 (8 / 100), equity_irr = round64 (2 / 10)\<rparr>]
      ! 0 ! 1 = Num 0"
proof -
  let ?g = "[\<lparr>debt_to_ebitda = Num 3, wacc = round64 (905 / 10000), equity_irr = round64 (1 / 10)\<rparr>,
       \<lparr>debt_to_ebitda = Num 5, wacc = round64 (8 / 100), equity_irr = round64 (2 / 10)\<rparr>]"
  have prem: "0 < length (uniqueWacc ?g) \<and> 1 < length (uniqueDebtToEbitda ?g) \<and>
      (\<forall>s \<in> set ?g. \<not> (indexOfNum (uniqueDebtToEbitda ?g) (debt_to_ebitda s) = int 1 \<and>
                        indexOfNum (uniqueWacc ?g) (waccKey s) = int 0))"
    by (simp add: uniqueDebtToEbitda_def uniqueWacc_def array_from_set_def indexOfNum_def
        strict_eq_def waccKey_def js_eval)
  have rows: "length (uniqueWacc ?g) = 2"
    by (simp add: uniqueWacc_def array_from_set_def waccKey_def js_eval)
  from matrix_shape_and_default [of ?g] have
    len: "length (matrix ?g) = length (uniqueWacc ?g)" and
    cell: "0 < length (uniqueWacc ?g) \<and> 1 < length (uniqueDebtToEbitda ?g) \<and>
      (\<forall>s \<in> set ?g. \<not> (indexOfNum (uniqueDebtToEbitda ?g) (debt_to_ebitda s) = int 1 \<and>
                        indexOfNum (uniqueWacc ?g) (waccKey s) = int 0))
      \<longrightarrow> matrix ?g ! 0 ! 1 = Num 0"
    by blast+
  from cell prem have "matrix ?g ! 0 ! 1 = Num 0" by (rule mp)
  moreover from len rows have "length (matrix ?g) = 2" by (rule trans)
  ultimately show ?thesis by (intro conjI)
qed

subsection \<open>C6: order of the axes\<close>

text \<open>
  C6, as stated: for every sample sequence the x keys are strictly ascending and the y
  keys strictly descending. This fails for a sample without a numeric wacc: its key is
  \<open>NaN\<close>, which is kept as a y key and is neither above nor below any other key.
\<close>

theorem axes_sorted_counterexample:
  "\<not> sorted_wrt (\<lambda>a b. js_lt b a)
       (uniqueWacc
          [\<lparr>debt_to_ebitda = Num 3, wacc = NaN, equity_irr = round64 (22 / 100)\<rparr>,
           \<lparr>debt_to_ebitda = Num 3, wacc = round64 (8 / 100), equity_irr = round64 (18 / 100)\<rparr>])"
  by (simp add: uniqueWacc_def array_from_set_def waccKey_def js_eval)

text \<open>
  C6, amended: for every sample sequence whose leverage values are binary64 numbers other
  than \<open>NaN\<close> and whose wacc values are not \<open>NaN\<close>, the x keys are the distinct
  leverage values in strictly ascending order, and the y keys are the distinct values of
  \<open>+(wacc * 100).toFixed(1)\<close> in strictly descending order; where the percentage is
  finite and below \<open>10^21\<close> in size, that key is the binary64 value of a number with
  one decimal at most 0.05 away from the percentage.
\<close>

theorem axes_strictly_sorted:
  assumes "\<forall>s \<in> set g. is_double (debt_to_ebitda s) \<and> debt_to_ebitda s \<noteq> NaN \<and> wacc s \<noteq> NaN"
  shows "sorted_wrt js_lt (uniqueDebtToEbitda g) \<and>
   sorted_wrt (\<lambda>a b. js_lt b a) (uniqueWacc g) \<and>
   set (uniqueDebtToEbitda g) = debt_to_ebitda ` set g \<and>
   set (uniqueWacc g) = (\<lambda>d::sample. toFixed1_num (js_mul (wacc d) (Num 100))) ` set g \<and>
   length (uniqueDebtToEbitda g) = card (debt_to_ebitda ` set g) \<and>
   length (uniqueWacc g) = card ((\<lambda>d::sample. toFixed1_num (js_mul (wacc d) (Num 100))) ` set g) \<and>
   (\<forall>d \<in> set g. \<forall>p. js_mul (wacc d) (Num 100) = Num p \<and> \<bar>p\<bar> < 10 ^ 21 \<longrightarrow>
      (\<exists>n::int. toFixed1_num (js_mul (wacc d) (Num 100)) = round64 (of_int n / 10) \<and>
         \<bar>of_int n / 10 - p\<bar> \<le> 1 / 20))"
proof -
  have keys: "waccKey = (\<lambda>d. toFixed1_num (js_mul (wacc d) (Num 100)))"
    by (rule ext) (simp add: waccKey_def)
  have c1: "sorted_wrt js_lt (uniqueDebtToEbitda g)"
    using assms by (intro ascending_uniqueDebtToEbitda) simp
  have c2: "sorted_wrt (\<lambda>a b. js_lt b a) (uniqueWacc g)"
    using assms by (intro descending_uniqueWacc) simp
  have c3: "set (uniqueDebtToEbitda g) = debt_to_ebitda ` set g"
    by (rule set_uniqueDebtToEbitda)
  have c4: "set (uniqueWacc g) = (\<lambda>d::sample. toFixed1_num (js_mul (wacc d) (Num 100))) ` set g"
    by (simp only: set_uniqueWacc keys)
  have "length (uniqueDebtToEbitda g) = card (set (uniqueDebtToEbitda g))"
    by (simp add: distinct_card distinct_uniqueDebtToEbitda)
  then have c5: "length (uniqueDebtToEbitda g) = card (debt_to_ebitda ` set g)"
    by (simp only: c3)
  have "length (uniqueWacc g) = card (set (uniqueWacc g))"
    by (simp add: distinct_card distinct_uniqueWacc)
  then have c6: "length (uniqueWacc g) =
      card ((\<lambda>d::sample. toFixed1_num (js_mul (wacc d) (Num 100))) ` set g)"
    by (simp only: c4)
  have c7: "\<forall>d \<in> set g. \<forall>p. js_mul (wacc d) (Num 100) = Num p \<and> \<bar>p\<bar> < 10 ^ 21 \<longrightarrow>
      (\<exists>n::int. toFixed1_num (js_mul (wacc d) (Num 100)) = round64 (of_int n / 10) \<and>
         \<bar>of_int n / 10 - p\<bar> \<le> 1 / 20)"
  proof (intro ballI allI impI)
    fix d :: sample and p
    assume "js_mul (wacc d) (Num 100) = Num p \<and> \<bar>p\<bar> < 10 ^ 21"
    then have "\<exists>n::int. waccKey d = round64 (of_int n / 10) \<and> \<bar>of_int n / 10 - p\<bar> \<le> 1 / 20"
      by (intro waccKey_one_decimal) simp_all
    then show "\<exists>n::int. toFixed1_num (js_mul (wacc d) (Num 100)) = round64 (of_int n / 10) \<and>
         \<bar>of_int n / 10 - p\<bar> \<le> 1 / 20"
      by (simp only: waccKey_def)
  qed
  from c1 c2 c3 c4 c5 c6 c7 show ?thesis by (intro conjI)
qed

theorem axes_strictly_sorted_witness:
  "sorted_wrt js_lt
     (uniqueDebtToEbitda
        [\<lparr>debt_to_ebitda = Num 5, wacc = round64 (775 / 10000), equity_irr = round64 (1 / 10)\<rparr>,
         \<lparr>debt_to_ebitda = Num 3, wacc = round64 (9 / 100), equity_irr = round64 (2 / 10)\<rparr>]) \<and>
   sorted_wrt (\<lambda>a b. js_lt b a)
     (uniqueWacc
        [\<lparr>debt_to_ebitda = Num 5, wacc = round64 (775 / 10000), equity_irr = round64 (1 / 10)\<rparr>,
         \<lparr>debt_to_ebitda = Num 3, wacc = round64 (9 / 100), equity_irr = round64 (2 / 10)\<rparr>])"
proof -
  let ?g = "[\<lparr>debt_to_ebitda = Num 5, wacc = round64 (775 / 10000), equity_irr = round64 (1 / 10)\<rparr>,
         \<lparr>debt_to_ebitda = Num 3, wacc = round64 (9 / 100), equity_irr = round64 (2 / 10)\<rparr>]"
  have prem: "\<forall>s \<in> set ?g. is_double (debt_to_ebitda s) \<and> debt_to_ebitda s \<noteq> NaN \<and> wacc s \<noteq> NaN"
    by (simp add: js_eval)
  from axes_strictly_sorted [OF prem] show ?thesis by blast
qed

subsection \<open>C7: keys that collide after rounding\<close>

text \<open>
  C7: two samples with wacc 0.0800001 and 0.0799999 and the same leverage both get the
  y key 8.0 and share one row, and the cell holds the value of the later sample. In
  general, when two samples map to the same cell, the later one overwrites the earlier
  one: the cell holds the value of the last sample with that pair of keys.
\<close>

theorem rounding_collision_last_wins:
  "waccKey \<lparr>debt_to_ebitda = l, wacc = round64 (800001 / 10000000), equity_irr = r1\<rparr> = Num 8 \<and>
   waccKey \<lparr>debt_to_ebitda = l, wacc = round64 (799999 / 10000000), equity_irr = r2\<rparr> = Num 8 \<and>
   (l \<noteq> NaN \<longrightarrow>
     normalizeGrid
       [\<lparr>debt_to_ebitda = l, wacc = round64 (800001 / 10000000), equity_irr = r1\<rparr>,
        \<lparr>debt_to_ebitda = l, wacc = round64 (799999 / 10000000), equity_irr = r2\<rparr>]
       = ([l], [Num 8], [[js_mul r2 (Num 100)]])) \<and>
   (\<forall>before a between b after x y.
      debt_to_ebitda a = debt_to_ebitda b \<and> waccKey a = waccKey b \<and>
      (\<forall>t \<in> set after. \<not> (debt_to_ebitda t = debt_to_ebitda b \<and> waccKey t = waccKey b)) \<and>
      indexOfNum (uniqueDebtToEbitda (before @ a # between @ b # after)) (debt_to_ebitda b) = int x \<and>
      indexOfNum (uniqueWacc (before @ a # between @ b # after)) (waccKey b) = int y
      \<longrightarrow> matrix (before @ a # between @ b # after) ! y ! x = js_mul (equity_irr b) (Num 100))"
proof (intro conjI allI impI)
  show k1: "waccKey \<lparr>debt_to_ebitda = l, wacc = round64 (800001 / 10000000), equity_irr = r1\<rparr> = Num 8"
    by (simp add: waccKey_def js_eval)
  show k2: "waccKey \<lparr>debt_to_ebitda = l, wacc = round64 (799999 / 10000000), equity_irr = r2\<rparr> = Num 8"
    by (simp add: waccKey_def js_eval)
  assume "l \<noteq> NaN"
  then show "normalizeGrid
       [\<lparr>debt_to_ebitda = l, wacc = round64 (800001 / 10000000), equity_irr = r1\<rparr>,
        \<lparr>debt_to_ebitda = l, wacc = round64 (799999 / 10000000), equity_irr = r2\<rparr>]
       = ([l], [Num 8], [[js_mul r2 (Num 100)]])"
    by (simp add: normalizeGrid_def uniqueDebtToEbitda_def uniqueWacc_def matrix_def
      fillMatrix_def fillCell_def zeroMatrix_def k1 k2 array_from_set_def indexOfNum_def
      strict_eq_def)
next
  fix before a between b after x y
  assume h: "debt_to_ebitda a = debt_to_ebitda b \<and> waccKey a = waccKey b \<and>
      (\<forall>t \<in> set after. \<not> (debt_to_ebitda t = debt_to_ebitda b \<and> waccKey t = waccKey b)) \<and>
      indexOfNum (uniqueDebtToEbitda (before @ a # between @ b # after)) (debt_to_ebitda b) = int x \<and>
      indexOfNum (uniqueWacc (before @ a # between @ b # after)) (waccKey b) = int y"
  have split: "before @ a # between @ b # after = (before @ a # between) @ b # after"
    by simp
  from h show "matrix (before @ a # between @ b # after) ! y ! x = js_mul (equity_irr b) (Num 100)"
    unfolding split by (intro matrix_last_write) simp_all
qed

theorem rounding_collision_last_wins_witness:
  "normalizeGrid
     [\<lparr>debt_to_ebitda = Num 4, wacc = round64 (800001 / 10000000), equity_irr = round64 (1 / 10)\<rparr>,
      \<lparr>debt_to_ebitda = Num 4, wacc = round64 (799999 / 10000000), equity_irr = round64 (2 / 10)\<rparr>]
     = ([Num 4], [Num 8], [[Num 20]]) \<and>
   matrix
     [\<lparr>debt_to_ebitda = Num 4, wacc = round64 (800001 / 10000000), equity_irr = round64 (1 / 10)\<rparr>,
      \<lparr>debt_to_ebitda = Num 4, wacc = round64 (799999 / 10000000), equity_irr = round64 (2 / 10)\<rparr>]
     ! 0 ! 0 = Num 20"
proof -
  let ?a = "\<lparr>debt_to_ebitda = Num 4, wacc = round64 (800001 / 10000000), equity_irr = round64 (1 / 10)\<rparr>"
  let ?b = "\<lparr>debt_to_ebitda = Num 4, wacc = round64 (799999 / 10000000), equity_irr = round64 (2 / 10)\<rparr>"
  note inst = rounding_collision_last_wins [of "Num 4" "round64 (1 / 10)" "round64 (2 / 10)"]
  have v: "js_mul (round64 (2 / 10)) (Num 100) = Num 20" by (simp add: js_eval)
  have w: "js_mul (equity_irr ?b) (Num 100) = Num 20" by (simp add: js_eval)
  have ne: "Num 4 \<noteq> NaN" by simp
  from inst have "Num 4 \<noteq> NaN \<longrightarrow>
      normalizeGrid [?a, ?b] = ([Num 4], [Num 8], [[js_mul (round64 (2 / 10)) (Num 100)]])"
    by blast
  from this ne
  have "normalizeGrid [?a, ?b] = ([Num 4], [Num 8], [[js_mul (round64 (2 / 10)) (Num 100)]])"
    by (rule mp)
  then have n: "normalizeGrid [?a, ?b] = ([Num 4], [Num 8], [[Num 20]])"
    by (simp only: v)
  from inst have g: "debt_to_ebitda ?a = debt_to_ebitda ?b \<and> waccKey ?a = waccKey ?b \<and>
      (\<forall>t \<in> set []. \<not> (debt_to_ebitda t = debt_to_ebitda ?b \<and> waccKey t = waccKey ?b)) \<and>
      indexOfNum (uniqueDebtToEbitda ([] @ ?a # [] @ ?b # [])) (debt_to_ebitda ?b) = int 0 \<and>
      indexOfNum (uniqueWacc ([] @ ?a # [] @ ?b # [])) (waccKey ?b) = int 0
      \<longrightarrow> matrix ([] @ ?a # [] @ ?b # []) ! 0 ! 0 = js_mul (equity_irr ?b) (Num 100)"
    by blast
  have prem: "debt_to_ebitda ?a = debt_to_ebitda ?b \<and> waccKey ?a = waccKey ?b \<and>
      (\<forall>t \<in> set []. \<not> (debt_to_ebitda t = debt_to_ebitda ?b \<and> waccKey t = waccKey ?b)) \<and>
      indexOfNum (uniqueDebtToEbitda ([] @ ?a # [] @ ?b # [])) (debt_to_ebitda ?b) = int 0 \<and>
      indexOfNum (uniqueWacc ([] @ ?a # [] @ ?b # [])) (waccKey ?b) = int 0"
    by (simp add: uniqueDebtToEbitda_def uniqueWacc_def array_from_set_def indexOfNum_def
        strict_eq_def waccKey_def js_eval)
  from g prem have "matrix ([] @ ?a # [] @ ?b # []) ! 0 ! 0 = js_mul (equity_irr ?b) (Num 100)"
    by (rule mp)
  then have "matrix ([] @ ?a # [] @ ?b # []) ! 0 ! 0 = Num 20" by (simp only: w)
  then have "matrix [?a, ?b] ! 0 ! 0 = Num 20" by (simp only: append_Nil)
  with n show ?thesis by (intro conjI)
qed

subsection \<open>C8: scenario D\<close>

text \<open>
  C8: for a matrix whose values are exactly -5, 0 and 12 the colour domain is
  \<open>(-5, 12)\<close>, and the text drawn over a cell has the light colour \<open>#fff\<close> where the
  value is -5 or 0 and the dark colour \<open>#000\<close> where it is 12.
\<close>

theorem scenario_D_domain_and_text:
  assumes "set (concat (data p)) = {- 5, 0, 12}"
  shows "colorDomain (data p) = (- 5, 12) \<and>
    (\<forall>i j. i < length (data p) \<and> j < length (data p ! i) \<longrightarrow>
       (\<exists>s kids rest. HeatmapChart p (Some target) = Inr (Some s) \<and>
          children s = Group 60 40 kids # rest \<and>
          cellText p i j (data p ! i ! j) \<in> set kids) \<and>
       text_fill (cellText p i j (data p ! i ! j)) =
         (if data p ! i ! j = 12 then ''#000'' else ''#fff''))"
proof -
  have ne: "concat (data p) \<noteq> []"
  proof
    assume "concat (data p) = []"
    then have "set (concat (data p)) = {}" by (simp only: list.set)
    with assms show False by simp
  qed
  have "Min (set (concat (data p))) = - 5" and "Max (set (concat (data p))) = 12"
    unfolding assms by simp_all
  then have "colorDomain (data p) = (- 5, 12)"
    by (simp only: colorDomain_def d3_min_nonempty [OF ne] d3_max_nonempty [OF ne])
      (simp add: or0_def)
  moreover have "text_fill (cellText p i j (data p ! i ! j)) =
         (if data p ! i ! j = 12 then ''#000'' else ''#fff'')"
    if "i < length (data p)" and "j < length (data p ! i)" for i j
  proof -
    from that have "data p ! i \<in> set (data p)" and "data p ! i ! j \<in> set (data p ! i)"
      by simp_all
    then have "data p ! i ! j \<in> set (concat (data p))" by auto
    with assms have "data p ! i ! j \<in> {- 5, 0, 12}" by simp
    then show ?thesis by (auto simp: cellText_def)
  qed
  moreover have "\<exists>s kids rest. HeatmapChart p (Some target) = Inr (Some s) \<and>
          children s = Group 60 40 kids # rest \<and>
          cellText p i j (data p ! i ! j) \<in> set kids"
    if "i < length (data p)" and "j < length (data p ! i)" for i j
    using HeatmapChart_draws_cell [OF that, of target] by blast
  ultimately show ?thesis by blast
qed

theorem scenario_D_domain_and_text_witness:
  "colorDomain [[- 5, 0, 12]] = (- 5, 12) \<and>
   text_fill (cellText \<lparr>data = [[- 5, 0, 12]], xLabels = [''1.0x'', ''2.0x'', ''3.0x''],
       yLabels = [''8.0%''], title = None, width = None, height = None\<rparr> 0 0 (- 5)) = ''#fff'' \<and>
   text_fill (cellText \<lparr>data = [[- 5, 0, 12]], xLabels = [''1.0x'', ''2.0x'', ''3.0x''],
       yLabels = [''8.0%''], title = None, width = None, height = None\<rparr> 0 1 0) = ''#fff'' \<and>
   text_fill (cellText \<lparr>data = [[- 5, 0, 12]], xLabels = [''1.0x'', ''2.0x'', ''3.0x''],
       yLabels = [''8.0%''], title = None, width = None, height = None\<rparr> 0 2 12) = ''#000''"
proof -
  let ?p = "\<lparr>data = [[- 5, 0, 12]], xLabels = [''1.0x'', ''2.0x'', ''3.0x''],
       yLabels = [''8.0%''], title = None, width = None, height = None\<rparr>"
  have h: "set (concat (data ?p)) = {- 5, 0, 12}" by simp
  note inst = scenario_D_domain_and_text [OF h, of "\<lparr>svg_width = None, svg_height = None, children = []\<rparr>"]
  from inst have d: "colorDomain (data ?p) = (- 5, 12)" by blast
  from inst have c: "i < length (data ?p) \<and> j < length (data ?p ! i) \<longrightarrow>
      text_fill (cellText ?p i j (data ?p ! i ! j)) =
         (if data ?p ! i ! j = 12 then ''#000'' else ''#fff'')" for i j
    by blast
  from d c [of 0 0] c [of 0 1] c [of 0 2] show ?thesis by simp
qed

subsection \<open>C9: no sample is dropped\<close>

text \<open>
  C9: for every sample sequence in which every sample's leverage and wacc are finite
  numbers, every sample's leverage is found in the x keys and its rounded percentage
  wacc, the value of \<open>+(wacc * 100).toFixed(1)\<close>, is found in the y keys, both at an
  index inside the axis, so the fill takes the writing branch for every sample and never
  the skipping one.
\<close>

theorem every_sample_resolves:
  assumes "\<forall>s \<in> set g. js_isFinite (debt_to_ebitda s) \<and> js_isFinite (wacc s)"
  shows "\<forall>s \<in> set g.
     waccKey s = toFixed1_num (js_mul (wacc s) (Num 100)) \<and>
     indexOfNum (uniqueDebtToEbitda g) (debt_to_ebitda s) \<noteq> - 1 \<and>
     indexOfNum (uniqueWacc g) (waccKey s) \<noteq> - 1 \<and>
     nat (indexOfNum (uniqueDebtToEbitda g) (debt_to_ebitda s)) < length (uniqueDebtToEbitda g) \<and>
     nat (indexOfNum (uniqueWacc g) (waccKey s)) < length (uniqueWacc g) \<and>
     fillCell (uniqueDebtToEbitda g) (uniqueWacc g) s m =
       m[nat (indexOfNum (uniqueWacc g) (waccKey s)) :=
          (m ! nat (indexOfNum (uniqueWacc g) (waccKey s)))
            [nat (indexOfNum (uniqueDebtToEbitda g) (debt_to_ebitda s)) :=
               js_mul (equity_irr s) (Num 100)]]"
proof
  fix s assume s: "s \<in> set g"
  with assms have fin: "js_isFinite (debt_to_ebitda s)" "js_isFinite (wacc s)" by auto
  from fin(1) have lx: "debt_to_ebitda s \<noteq> NaN" by (cases "debt_to_ebitda s") auto
  from fin(2) have "wacc s \<noteq> NaN" by (cases "wacc s") auto
  then have "comparable (waccKey s)" by (rule comparable_waccKey)
  then have ly: "waccKey s \<noteq> NaN" by (cases "waccKey s") auto
  from s have sx: "debt_to_ebitda s \<in> set (uniqueDebtToEbitda g)"
    and sy: "waccKey s \<in> set (uniqueWacc g)"
    by (simp_all add: set_uniqueDebtToEbitda set_uniqueWacc)
  have key: "waccKey s = toFixed1_num (js_mul (wacc s) (Num 100))" by (simp add: waccKey_def)
  from indexOfNum_found [OF sx lx] indexOfNum_found [OF sy ly]
  have "indexOfNum (uniqueDebtToEbitda g) (debt_to_ebitda s) \<noteq> - 1 \<and>
     indexOfNum (uniqueWacc g) (waccKey s) \<noteq> - 1 \<and>
     nat (indexOfNum (uniqueDebtToEbitda g) (debt_to_ebitda s)) < length (uniqueDebtToEbitda g) \<and>
     nat (indexOfNum (uniqueWacc g) (waccKey s)) < length (uniqueWacc g) \<and>
     fillCell (uniqueDebtToEbitda g) (uniqueWacc g) s m =
       m[nat (indexOfNum (uniqueWacc g) (waccKey s)) :=
          (m ! nat (indexOfNum (uniqueWacc g) (waccKey s)))
            [nat (indexOfNum (uniqueDebtToEbitda g) (debt_to_ebitda s)) :=
               js_mul (equity_irr s) (Num 100)]]"
    by (auto simp: fillCell_def Let_def)
  with key
  show "waccKey s = toFixed1_num (js_mul (wacc s) (Num 100)) \<and>
     indexOfNum (uniqueDebtToEbitda g) (debt_to_ebitda s) \<noteq> - 1 \<and>
     indexOfNum (uniqueWacc g) (waccKey s) \<noteq> - 1 \<and>
     nat (indexOfNum (uniqueDebtToEbitda g) (debt_to_ebitda s)) < length (uniqueDebtToEbitda g) \<and>
     nat (indexOfNum (uniqueWacc g) (waccKey s)) < length (uniqueWacc g) \<and>
     fillCell (uniqueDebtToEbitda g) (uniqueWacc g) s m =
       m[nat (indexOfNum (uniqueWacc g) (waccKey s)) :=
          (m ! nat (indexOfNum (uniqueWacc g) (waccKey s)))
            [nat (indexOfNum (uniqueDebtToEbitda g) (debt_to_ebitda s)) :=
               js_mul (equity_irr s) (Num 100)]]"
    by (rule conjI)
qed

theorem every_sample_resolves_witness:
  "indexOfNum (uniqueDebtToEbitda
       [\<lparr>debt_to_ebitda = Num 3, wacc = round64 (905 / 10000), equity_irr = round64 (1 / 10)\<rparr>,
        \<lparr>debt_to_ebitda = Num 3, wacc = round64 (9 / 100), equity_irr = round64 (2 / 10)\<rparr>])
     (Num 3) \<noteq> - 1 \<and>
   indexOfNum (uniqueWacc
       [\<lparr>debt_to_ebitda = Num 3, wacc = round64 (905 / 10000), equity_irr = round64 (1 / 10)\<rparr>,
        \<lparr>debt_to_ebitda = Num 3, wacc = round64 (9 / 100), equity_irr = round64 (2 / 10)\<rparr>])
     (waccKey \<lparr>debt_to_ebitda = Num 3, wacc = round64 (9 / 100), equity_irr = round64 (2 / 10)\<rparr>)
     \<noteq> - 1"
proof -
  let ?g = "[\<lparr>debt_to_ebitda = Num 3, wacc = round64 (905 / 10000), equity_irr = round64 (1 / 10)\<rparr>,
        \<lparr>debt_to_ebitda = Num 3, wacc = round64 (9 / 100), equity_irr = round64 (2 / 10)\<rparr>]"
  let ?s = "\<lparr>debt_to_ebitda = Num 3, wacc = round64 (9 / 100), equity_irr = round64 (2 / 10)\<rparr>"
  have prem: "\<forall>s \<in> set ?g. js_isFinite (debt_to_ebitda s) \<and> js_isFinite (wacc s)"
    by (simp add: js_eval)
  have mem: "?s \<in> set ?g" by simp
  from every_sample_resolves [OF prem, of "[]"] mem
  have "indexOfNum (uniqueDebtToEbitda ?g) (debt_to_ebitda ?s) \<noteq> - 1 \<and>
     indexOfNum (uniqueWacc ?g) (waccKey ?s) \<noteq> - 1" by blast
  then show ?thesis by simp
qed

subsection \<open>C10: label arrays shorter than the matrix\<close>

text \<open>
  C10: when the matrix has a cell in row \<open>i\<close> and column \<open>j\<close>, the render does not
  throw and draws both the rectangle and the text of that cell, also when a label array
  is too short for the cell: without a y label for row \<open>i\<close> the rectangle's \<open>y\<close> is 0 and
  the text's \<open>y\<close> is 0 plus half the band width, and likewise for \<open>x\<close> without an x label
  for column \<open>j\<close>.
\<close>

theorem short_labels_fall_back_to_zero:
  assumes "i < length (data p)" and "j < length (data p ! i)"
  shows "(\<exists>s kids rest. HeatmapChart p (Some target) = Inr (Some s) \<and>
       children s = Group 60 40 kids # rest \<and>
       cellRect p i j (data p ! i ! j) \<in> set kids \<and>
       cellText p i j (data p ! i ! j) \<in> set kids) \<and>
    (length (yLabels p) \<le> i \<longrightarrow>
       rect_y (cellRect p i j (data p ! i ! j)) = 0 \<and>
       text_y (cellText p i j (data p ! i ! j)) = 0 + bandwidth (yScale p) / 2) \<and>
    (length (xLabels p) \<le> j \<longrightarrow>
       rect_x (cellRect p i j (data p ! i ! j)) = 0 \<and>
       text_x (cellText p i j (data p ! i ! j)) = 0 + bandwidth (xScale p) / 2)"
  using HeatmapChart_draws_cell [OF assms, of target]
  by (simp add: cellRect_def cellText_def yCoord_beyond xCoord_beyond)

theorem short_labels_fall_back_to_zero_witness:
  "rect_y (cellRect \<lparr>data = [[1, 2], [3, 4]], xLabels = [''3.0x''], yLabels = [''8.0%''],
       title = None, width = None, height = None\<rparr> 1 1 4) = 0 \<and>
   rect_x (cellRect \<lparr>data = [[1, 2], [3, 4]], xLabels = [''3.0x''], yLabels = [''8.0%''],
       title = None, width = None, height = None\<rparr> 1 1 4) = 0 \<and>
   (\<exists>s. HeatmapChart \<lparr>data = [[1, 2], [3, 4]], xLabels = [''3.0x''], yLabels = [''8.0%''],
       title = None, width = None, height = None\<rparr>
       (Some \<lparr>svg_width = None, svg_height = None, children = []\<rparr>) = Inr (Some s))"
proof -
  let ?p = "\<lparr>data = [[1, 2], [3, 4]], xLabels = [''3.0x''], yLabels = [''8.0%''],
       title = None, width = None, height = None\<rparr>"
  have 1: "1 < length (data ?p)" and 2: "1 < length (data ?p ! 1)" by simp_all
  have 3: "length (yLabels ?p) \<le> 1" and 4: "length (xLabels ?p) \<le> 1" by simp_all
  from short_labels_fall_back_to_zero [OF 1 2, of "\<lparr>svg_width = None, svg_height = None, children = []\<rparr>"] 3 4
  show ?thesis by auto
qed



end
